(* ===== verification/Prelude.thy ===== *)
theory Prelude
  imports Main "HOL-Library.Word" "HOL-Library.AList" "HOL-Library.Multiset"
begin

text \<open>
  The vocabulary every component theory shares.

  \<^item> Machine integers of the Rust code at their width, and the two ways a Rust function can
    end: it returns (\<open>Done\<close>) or it panics (\<open>Panic\<close>, with the panic's message). A Rust
    \<^verbatim>\<open>Result\<close> is a sum, \<open>Inl\<close> the error.
  \<^item> \<^verbatim>\<open>HashMap\<close> and \<^verbatim>\<open>HashSet\<close> as lists without repeated keys, in the order in which
    the container would be iterated. The order is unspecified in Rust, so the theorems of
    the development hold for every order of the lists they start from, and the step relations
    of the components contain a step that permutes the containers.
  \<^item> The collections \<open>rust_simps\<close> (equations of the containers) and \<open>wf_intros\<close>
    (preservation rules of the invariants).
  \<^item> The interface locales that several components share: \<open>keyed_store\<close> (what a
    \<^verbatim>\<open>HashMap\<close> promises), \<open>registry\<close> (the vacant-or-error registration idiom) and
    \<open>simulation\<close> (an operation that is iterated over a list of inputs, may stop early and
    respects an abstraction).
\<close>

section \<open>Words, results and panics\<close>

type_synonym u8 = "8 word"
type_synonym u16 = "16 word"
type_synonym u32 = "32 word"
type_synonym u64 = "64 word"
type_synonym usize = "64 word"

datatype 'a outcome = Panic string | Done 'a

named_theorems rust_simps \<open>equations of the container operations\<close>
named_theorems wf_intros \<open>preservation rules of well-formedness predicates\<close>

fun is_done :: "'a outcome \<Rightarrow> bool" where
  "is_done (Done _) = True"
| "is_done (Panic _) = False"

lemma is_done_iff: "is_done x \<longleftrightarrow> (\<exists>a. x = Done a)"
  by (cases x) auto

section \<open>Hash maps\<close>

type_synonym ('k, 'v) hash_map = "('k \<times> 'v) list"

definition hm_get :: "('k, 'v) hash_map \<Rightarrow> 'k \<Rightarrow> 'v option" where
  "hm_get m k = map_of m k"

definition hm_insert :: "'k \<Rightarrow> 'v \<Rightarrow> ('k, 'v) hash_map \<Rightarrow> ('k, 'v) hash_map" where
  "hm_insert k v m = AList.update k v m"

definition hm_remove :: "'k \<Rightarrow> ('k, 'v) hash_map \<Rightarrow> ('k, 'v) hash_map" where
  "hm_remove k m = filter (\<lambda>e. fst e \<noteq> k) m"

definition hm_values :: "('k, 'v) hash_map \<Rightarrow> 'v list" where
  "hm_values m = map snd m"

definition hm_values_mut :: "('v \<Rightarrow> 'v) \<Rightarrow> ('k, 'v) hash_map \<Rightarrow> ('k, 'v) hash_map" where
  "hm_values_mut f m = map (\<lambda>(k, v). (k, f v)) m"

definition hm_wf :: "('k, 'v) hash_map \<Rightarrow> bool" where
  "hm_wf m \<longleftrightarrow> distinct (map fst m)"

lemma hm_get_Nil [rust_simps]: "hm_get [] k = None"
  by (simp add: hm_get_def)

lemma hm_get_Cons [rust_simps]:
  "hm_get ((k, v) # m) k' = (if k' = k then Some v else hm_get m k')"
  by (simp add: hm_get_def)

lemma hm_get_insert [rust_simps]:
  "hm_get (hm_insert k v m) k' = (if k' = k then Some v else hm_get m k')"
  by (simp add: hm_get_def hm_insert_def update_conv')

lemma keys_hm_insert [rust_simps]: "fst ` set (hm_insert k v m) = insert k (fst ` set m)"
  by (simp add: hm_insert_def dom_update)

lemma hm_get_remove [rust_simps]:
  "hm_get (hm_remove k m) k' = (if k' = k then None else hm_get m k')"
  by (induction m) (auto simp: hm_get_def hm_remove_def)

lemma hm_get_values_mut [rust_simps]: "hm_get (hm_values_mut f m) k = map_option f (hm_get m k)"
  by (induction m) (auto simp: hm_get_def hm_values_mut_def)

lemma hm_wf_Nil [wf_intros, simp]: "hm_wf []"
  by (simp add: hm_wf_def)

lemma hm_wf_Cons [simp]: "hm_wf (e # m) \<longleftrightarrow> fst e \<notin> fst ` set m \<and> hm_wf m"
  by (simp add: hm_wf_def)

lemma hm_wf_insert [wf_intros]: "hm_wf m \<Longrightarrow> hm_wf (hm_insert k v m)"
  by (simp add: hm_wf_def hm_insert_def distinct_update)

lemma hm_wf_remove [wf_intros]: "hm_wf m \<Longrightarrow> hm_wf (hm_remove k m)"
  by (simp add: hm_wf_def hm_remove_def distinct_map_filter)

lemma hm_wf_values_mut [wf_intros]: "hm_wf m \<Longrightarrow> hm_wf (hm_values_mut f m)"
proof -
  have "map fst (hm_values_mut f m) = map fst m"
    by (induction m) (auto simp: hm_values_mut_def)
  then show "hm_wf m \<Longrightarrow> ?thesis"
    by (simp add: hm_wf_def)
qed

lemma hm_get_in_set: "hm_wf m \<Longrightarrow> hm_get m k = Some v \<longleftrightarrow> (k, v) \<in> set m"
  by (auto simp: hm_get_def hm_wf_def)

lemma hm_get_SomeD: "hm_get m k = Some v \<Longrightarrow> (k, v) \<in> set m"
  by (simp add: hm_get_def map_of_SomeD)

lemma hm_get_None_iff: "hm_get m k = None \<longleftrightarrow> k \<notin> fst ` set m"
  by (simp add: hm_get_def map_of_eq_None_iff)

lemma hm_get_perm: "hm_wf m \<Longrightarrow> mset m = mset m' \<Longrightarrow> hm_get m' = hm_get m"
proof -
  assume wf: "hm_wf m" and ms: "mset m = mset m'"
  have "set m = set m'" using mset_eq_setD [OF ms] .
  moreover have "hm_wf m'"
    using wf mset_eq_imp_distinct_iff [of "map fst m" "map fst m'"] ms
    by (simp add: hm_wf_def mset_map)
  ultimately show ?thesis
    using wf by (intro ext) (metis hm_get_in_set option.exhaust)
qed

lemma hm_wf_perm: "hm_wf m \<Longrightarrow> mset m = mset m' \<Longrightarrow> hm_wf m'"
  using mset_eq_imp_distinct_iff [of "map fst m" "map fst m'"] by (simp add: hm_wf_def mset_map)

lemma sum_list_map_update:
  fixes f :: "'a \<Rightarrow> nat"
  shows "i < length xs \<Longrightarrow> sum_list (map f (xs[i := y])) + f (xs ! i) = sum_list (map f xs) + f y"
  by (induction xs arbitrary: i) (auto split: nat.split)

lemma list_all_update:
  "list_all P m \<Longrightarrow> P (k, v) \<Longrightarrow> list_all P (hm_insert k v m)"
  unfolding hm_insert_def by (induction m) auto

text \<open>Every operation of a component sees a map only through these laws.\<close>

locale keyed_store =
  fixes get :: "'m \<Rightarrow> 'k \<Rightarrow> 'v option"
    and insert :: "'k \<Rightarrow> 'v \<Rightarrow> 'm \<Rightarrow> 'm"
    and remove :: "'k \<Rightarrow> 'm \<Rightarrow> 'm"
    and empty :: 'm
    and wf :: "'m \<Rightarrow> bool"
  assumes get_empty: "get empty = Map.empty"
    and get_insert: "wf m \<Longrightarrow> get (insert k v m) = (get m)(k \<mapsto> v)"
    and get_remove: "wf m \<Longrightarrow> get (remove k m) = (get m)(k := None)"
    and wf_empty: "wf empty"
    and wf_insert: "wf m \<Longrightarrow> wf (insert k v m)"
    and wf_remove: "wf m \<Longrightarrow> wf (remove k m)"
begin

lemma remove_insert:
  "wf m \<Longrightarrow> get m k = None \<Longrightarrow> get (remove k (insert k v m)) = get m"
  by (simp add: get_remove wf_insert get_insert fun_upd_idem)

lemma insert_overwrites: "wf m \<Longrightarrow> get (insert k w (insert k v m)) = get (insert k w m)"
  by (simp add: get_insert wf_insert)

lemma remove_other: "wf m \<Longrightarrow> k \<noteq> k' \<Longrightarrow> get (remove k m) k' = get m k'"
  by (simp add: get_remove)

lemma wf_remove_all: "wf m \<Longrightarrow> wf (fold remove ks m)"
  by (induction ks arbitrary: m) (simp_all add: wf_remove)

lemma get_remove_all: "wf m \<Longrightarrow> get (fold remove ks m) = (get m) |` (- set ks)"
proof (induction ks arbitrary: m)
  case Nil
  then show ?case by simp
next
  case (Cons k ks)
  then show ?case
    by (intro ext) (simp add: wf_remove get_remove restrict_map_def)
qed

end

interpretation hm: keyed_store hm_get hm_insert hm_remove "[]" hm_wf
  by unfold_locales (auto simp: rust_simps fun_eq_iff intro: wf_intros)

section \<open>Hash sets\<close>

type_synonym 'a hash_set = "'a list"

text \<open>\<^verbatim>\<open>HashSet::insert\<close> also reports whether the element is new.\<close>

definition hs_insert :: "'a \<Rightarrow> 'a hash_set \<Rightarrow> 'a hash_set \<times> bool" where
  "hs_insert x s = (if x \<in> set s then (s, False) else (s @ [x], True))"

definition hs_remove :: "'a \<Rightarrow> 'a hash_set \<Rightarrow> 'a hash_set" where
  "hs_remove x s = filter (\<lambda>y. y \<noteq> x) s"

lemma set_hs_insert [rust_simps]: "set (fst (hs_insert x s)) = insert x (set s)"
  by (auto simp: hs_insert_def)

lemma hs_insert_new [rust_simps]: "snd (hs_insert x s) \<longleftrightarrow> x \<notin> set s"
  by (simp add: hs_insert_def)

lemma set_hs_remove [rust_simps]: "set (hs_remove x s) = set s - {x}"
  by (auto simp: hs_remove_def)

lemma distinct_hs_insert [wf_intros]: "distinct s \<Longrightarrow> distinct (fst (hs_insert x s))"
  by (simp add: hs_insert_def)

lemma distinct_hs_remove [wf_intros]: "distinct s \<Longrightarrow> distinct (hs_remove x s)"
  by (simp add: hs_remove_def)

section \<open>Registration: insert into a vacant entry, or report an error\<close>

text \<open>
  \<^verbatim>\<open>ServiceManager::register_endpoint_discovery\<close>, \<^verbatim>\<open>ProtocolRegistry::register\<close>,
  \<^verbatim>\<open>Matchmaker::register_client\<close> and \<^verbatim>\<open>Matchmaker::register_server\<close> share one contract:
  a name that is free is bound, a name that is taken is an error and nothing changes.
\<close>

fun register_all :: "('s \<Rightarrow> 'i \<Rightarrow> 'e + 's) \<Rightarrow> 's \<Rightarrow> 'i list \<Rightarrow> 'e + 's" where
  "register_all register s [] = Inr s"
| "register_all register s (x # xs) =
     (case register s x of Inl err \<Rightarrow> Inl err | Inr s' \<Rightarrow> register_all register s' xs)"

locale registry =
  fixes lookup :: "'s \<Rightarrow> 'k \<Rightarrow> 'v option"
    and key :: "'i \<Rightarrow> 'k"
    and entry :: "'i \<Rightarrow> 'v"
    and register :: "'s \<Rightarrow> 'i \<Rightarrow> 'e + 's"
    and inv :: "'s \<Rightarrow> bool"
  assumes vacant: "inv s \<Longrightarrow> lookup s (key x) = None \<Longrightarrow>
      \<exists>s'. register s x = Inr s' \<and> lookup s' = (lookup s)(key x \<mapsto> entry x) \<and> inv s'"
    and occupied: "inv s \<Longrightarrow> lookup s (key x) \<noteq> None \<Longrightarrow> \<exists>e. register s x = Inl e"
begin

lemma accepted:
  assumes "inv s" and "register s x = Inr s'"
  shows "lookup s (key x) = None" and "lookup s' = (lookup s)(key x \<mapsto> entry x)" and "inv s'"
  using assms occupied [of s x] vacant [of s x] by (cases "lookup s (key x)"; force)+

lemma accepted_iff: "inv s \<Longrightarrow> (\<exists>s'. register s x = Inr s') \<longleftrightarrow> lookup s (key x) = None"
  using vacant accepted(1) by blast

lemma keeps_bindings:
  "inv s \<Longrightarrow> register s x = Inr s' \<Longrightarrow> lookup s j = Some w \<Longrightarrow> lookup s' j = Some w"
  using accepted(1,2) by fastforce

lemma second_refused:
  "inv s \<Longrightarrow> register s x = Inr s' \<Longrightarrow> key y = key x \<Longrightarrow> \<exists>e. register s' y = Inl e"
  using accepted(2,3) occupied by (metis fun_upd_same option.distinct(1))

lemma register_all_iff:
  "inv s \<Longrightarrow> (\<exists>s'. register_all register s xs = Inr s') \<longleftrightarrow>
     distinct (map key xs) \<and> (\<forall>x \<in> set xs. lookup s (key x) = None)"
proof (induction xs arbitrary: s)
  case Nil
  then show ?case by simp
next
  case (Cons x xs)
  show ?case
  proof (cases "lookup s (key x)")
    case None
    then obtain s1 where s1: "register s x = Inr s1"
        "lookup s1 = (lookup s)(key x \<mapsto> entry x)" "inv s1"
      using vacant Cons.prems by blast
    have "(\<forall>y \<in> set xs. lookup s1 (key y) = None) \<longleftrightarrow>
        key x \<notin> key ` set xs \<and> (\<forall>y \<in> set xs. lookup s (key y) = None)"
      unfolding s1(2) by (auto simp: image_iff)
    then show ?thesis
      using Cons.IH [OF s1(3)] s1(1) None by auto
  next
    case (Some w)
    then show ?thesis
      using occupied [OF Cons.prems, of x] by auto
  qed
qed

lemma register_all_lookup:
  "inv s \<Longrightarrow> register_all register s xs = Inr s' \<Longrightarrow>
     inv s' \<and> lookup s' = lookup s ++ map_of (map (\<lambda>x. (key x, entry x)) xs)"
proof (induction xs arbitrary: s)
  case Nil
  then show ?case by simp
next
  case (Cons x xs)
  then obtain s1 where s1: "register s x = Inr s1" "register_all register s1 xs = Inr s'"
    by (auto split: sum.splits)
  have "key x \<notin> key ` set xs"
    using register_all_iff [OF Cons.prems(1), of "x # xs"] Cons.prems(2) by auto
  then have "(lookup s)(key x \<mapsto> entry x) ++ map_of (map (\<lambda>x. (key x, entry x)) xs) =
      lookup s ++ map_of (map (\<lambda>x. (key x, entry x)) (x # xs))"
    by (intro ext) (auto simp: map_add_def map_of_eq_None_iff image_iff split: option.splits
        dest!: map_of_SomeD)
  then show ?case
    using Cons.IH [OF accepted(3) [OF Cons.prems(1) s1(1)] s1(2)]
    unfolding accepted(2) [OF Cons.prems(1) s1(1)] by (simp only:)
qed

end

section \<open>Iterating an operation that may stop early\<close>

text \<open>
  A loop of the source that runs one operation per input and leaves at the first error or
  panic. What one round keeps, the whole loop keeps, and an abstraction that one round
  respects is respected by the whole loop.
\<close>

fun run_all :: "('s \<Rightarrow> 'i \<Rightarrow> 's option) \<Rightarrow> 's \<Rightarrow> 'i list \<Rightarrow> 's option" where
  "run_all f s [] = Some s"
| "run_all f s (x # xs) = (case f s x of None \<Rightarrow> None | Some s' \<Rightarrow> run_all f s' xs)"

lemma run_all_append:
  "run_all f s (xs @ ys) = (case run_all f s xs of None \<Rightarrow> None | Some s' \<Rightarrow> run_all f s' ys)"
  by (induction f s xs rule: run_all.induct) (auto split: option.splits)

locale simulation =
  fixes step :: "'s \<Rightarrow> 'i \<Rightarrow> 's option"
    and abs :: "'s \<Rightarrow> 'a"
    and astep :: "'i \<Rightarrow> 'a \<Rightarrow> 'a"
    and inv :: "'s \<Rightarrow> bool"
  assumes step_inv: "inv s \<Longrightarrow> step s i = Some s' \<Longrightarrow> inv s'"
    and step_abs: "inv s \<Longrightarrow> step s i = Some s' \<Longrightarrow> abs s' = astep i (abs s)"
begin

lemma run_inv: "inv s \<Longrightarrow> run_all step s is = Some s' \<Longrightarrow> inv s'"
  by (induction "is" arbitrary: s) (auto split: option.splits dest: step_inv)

lemma run_abs: "inv s \<Longrightarrow> run_all step s is = Some s' \<Longrightarrow> abs s' = fold astep is (abs s)"
proof (induction "is" arbitrary: s)
  case Nil
  then show ?case by simp
next
  case (Cons i "is")
  then obtain s1 where s1: "step s i = Some s1" "run_all step s1 is = Some s'"
    by (auto split: option.splits)
  then show ?case
    using Cons.IH [OF step_inv [OF Cons.prems(1) s1(1)] s1(2)] step_abs [OF Cons.prems(1) s1(1)]
    by simp
qed

end

section \<open>A reference channel\<close>

text \<open>A channel whose receiver takes the first \<open>n\<close> messages and is then dropped, so that later
  sends are refused. The operations are stated for any channel; this one makes them executable.\<close>

definition take_channel :: "nat \<Rightarrow> 'e list \<Rightarrow> 'e \<Rightarrow> 'e list option" where
  "take_channel n c e = (if length c < n then Some (c @ [e]) else None)"

text \<open>A channel whose receiver stays.\<close>

definition open_channel :: "'e list \<Rightarrow> 'e \<Rightarrow> 'e list option" where
  "open_channel c e = Some (c @ [e])"

lemma run_all_open_channel [simp]: "run_all open_channel c es = Some (c @ es)"
  by (induction es arbitrary: c) (simp_all add: open_channel_def)

end
