(* ===== verification/Rust_Std.thy ===== *)
theory Rust_Std
  imports Prelude
begin

text \<open>
  What the proxy uses of Rust's standard library on strings and addresses:
  \<^verbatim>\<open>str::split\<close> on one character, \<^verbatim>\<open>str::parse\<close> for unsigned integers and for
  \<^verbatim>\<open>IpAddr\<close>, and the address types. A string is the list of its UTF-8 bytes; the separators
  and digits looked for are ASCII, so reading bytes and reading characters agree.
  The theory proves that splitting and joining are inverse, which strings parse as an
  unsigned integer, and that a printed number parses back.
\<close>

section \<open>Splitting and joining\<close>

fun split_on :: "char \<Rightarrow> string \<Rightarrow> string list" where
  "split_on c [] = [[]]"
| "split_on c (x # xs) =
     (if x = c then [] # split_on c xs
      else (case split_on c xs of [] \<Rightarrow> [[x]] | y # ys \<Rightarrow> (x # y) # ys))"

fun join_on :: "char \<Rightarrow> string list \<Rightarrow> string" where
  "join_on c [] = []"
| "join_on c [s] = s"
| "join_on c (s # t # ts) = s @ c # join_on c (t # ts)"

lemma split_on_nonempty [simp]: "split_on c s \<noteq> []"
  by (induction s) (auto split: list.splits)

lemma join_split: "join_on c (split_on c s) = s"
proof (induction s)
  case Nil
  then show ?case by simp
next
  case (Cons x xs)
  obtain y ys where ys: "split_on c xs = y # ys"
    by (cases "split_on c xs") auto
  with Cons.IH show ?case
    by (cases ys) auto
qed

lemma split_on_free: "c \<notin> set s \<Longrightarrow> split_on c s = [s]"
  by (induction s) auto

lemma split_on_append: "c \<notin> set s \<Longrightarrow> split_on c (s @ c # t) = s # split_on c t"
  by (induction s) auto

lemma split_join:
  "ss \<noteq> [] \<Longrightarrow> (\<And>s. s \<in> set ss \<Longrightarrow> c \<notin> set s) \<Longrightarrow> split_on c (join_on c ss) = ss"
  by (induction c ss rule: join_on.induct) (auto simp: split_on_free split_on_append)

section \<open>Unsigned integers\<close>

datatype int_error = Empty | InvalidDigit | PosOverflow

definition digit_val :: "char \<Rightarrow> nat option" where
  "digit_val c = (let n = of_char c in if 48 \<le> n \<and> n \<le> 57 then Some (n - 48) else None)"

definition is_digit :: "char \<Rightarrow> bool" where
  "is_digit c \<longleftrightarrow> digit_val c \<noteq> None"

fun parse_digits :: "nat \<Rightarrow> nat \<Rightarrow> string \<Rightarrow> int_error + nat" where
  "parse_digits mx acc [] = Inr acc"
| "parse_digits mx acc (c # cs) =
     (case digit_val c of
        None \<Rightarrow> Inl InvalidDigit
      | Some d \<Rightarrow>
          if mx < acc * 10 then Inl PosOverflow
          else if mx < acc * 10 + d then Inl PosOverflow
          else parse_digits mx (acc * 10 + d) cs)"

text \<open>\<^verbatim>\<open>from_str_radix\<close> at radix 10: a lone sign is an invalid digit, a leading plus is skipped,
  and for an unsigned type a leading minus is an invalid digit.\<close>

definition parse_uint :: "nat \<Rightarrow> string \<Rightarrow> int_error + nat" where
  "parse_uint mx s =
     (if s = [] then Inl Empty
      else if s = ''+'' \<or> s = ''-'' then Inl InvalidDigit
      else parse_digits mx 0 (if hd s = CHR ''+'' then tl s else s))"

definition parse_u16 :: "string \<Rightarrow> int_error + u16" where
  "parse_u16 s = map_sum id of_nat (parse_uint (2 ^ 16 - 1) s)"

definition parse_usize :: "string \<Rightarrow> int_error + usize" where
  "parse_usize s = map_sum id of_nat (parse_uint (2 ^ 64 - 1) s)"

fun dec_value :: "nat \<Rightarrow> string \<Rightarrow> nat" where
  "dec_value acc [] = acc"
| "dec_value acc (c # cs) = dec_value (acc * 10 + the (digit_val c)) cs"

lemma dec_value_mono: "acc \<le> dec_value acc cs"
  by (induction acc cs rule: dec_value.induct) auto

lemma parse_digits_iff:
  "acc \<le> mx \<Longrightarrow> parse_digits mx acc s = Inr n \<longleftrightarrow>
     list_all is_digit s \<and> dec_value acc s = n \<and> n \<le> mx"
proof (induction mx acc s rule: parse_digits.induct)
  case (1 mx acc)
  then show ?case by auto
next
  case (2 mx acc c cs)
  show ?case
  proof (cases "digit_val c")
    case None
    then show ?thesis by (simp add: is_digit_def)
  next
    case (Some d)
    show ?thesis
    proof (cases "acc * 10 + d \<le> mx")
      case True
      with Some show ?thesis
        using 2(1) [OF Some] by (simp add: is_digit_def)
    next
      case False
      then have "mx < dec_value (acc * 10 + d) cs"
        using dec_value_mono [of "acc * 10 + d" cs] by simp
      with False Some show ?thesis
        by (auto simp: is_digit_def)
    qed
  qed
qed

lemma parse_uint_digits:
  "s \<noteq> [] \<Longrightarrow> list_all is_digit s \<Longrightarrow>
     parse_uint mx s = Inr n \<longleftrightarrow> dec_value 0 s = n \<and> n \<le> mx"
proof -
  assume s: "s \<noteq> []" "list_all is_digit s"
  then obtain c cs where "s = c # cs" "is_digit c"
    by (cases s) auto
  moreover have "\<not> is_digit CHR ''+''" "\<not> is_digit CHR ''-''"
    by (simp_all add: is_digit_def digit_val_def)
  ultimately show ?thesis
    using s by (auto simp: parse_uint_def parse_digits_iff)
qed

text \<open>The inverse direction: \<^verbatim>\<open>to_string\<close> of an unsigned integer.\<close>

definition digit_char :: "nat \<Rightarrow> char" where
  "digit_char d = char_of (48 + d)"

fun show_nat :: "nat \<Rightarrow> string" where
  "show_nat n = (if n < 10 then [digit_char n] else show_nat (n div 10) @ [digit_char (n mod 10)])"

declare show_nat.simps [simp del]

lemma digit_val_char: "d < 10 \<Longrightarrow> digit_val (digit_char d) = Some d"
  by (simp add: digit_val_def digit_char_def Let_def)

lemma is_digit_char: "d < 10 \<Longrightarrow> is_digit (digit_char d)"
  by (simp add: is_digit_def digit_val_char)

lemma show_nat_digits: "show_nat n \<noteq> [] \<and> list_all is_digit (show_nat n)"
proof (induction n rule: show_nat.induct)
  case (1 n)
  then show ?case
    by (subst (1 2) show_nat.simps) (auto simp: is_digit_char)
qed

lemma dec_value_append: "dec_value acc (s @ t) = dec_value (dec_value acc s) t"
  by (induction acc s rule: dec_value.induct) auto

lemma dec_value_show_nat: "dec_value 0 (show_nat n) = n"
proof (induction n rule: show_nat.induct)
  case (1 n)
  then show ?case
    by (subst show_nat.simps) (auto simp: digit_val_char dec_value_append)
qed

lemma parse_uint_show: "n \<le> mx \<Longrightarrow> parse_uint mx (show_nat n) = Inr n"
  using show_nat_digits parse_uint_digits dec_value_show_nat by auto

lemma parse_uint_show_overflow: "mx < n \<Longrightarrow> \<exists>e. parse_uint mx (show_nat n) = Inl e"
proof -
  assume "mx < n"
  then have "parse_uint mx (show_nat n) \<noteq> Inr m" for m
    using show_nat_digits [of n] parse_uint_digits dec_value_show_nat [of n] by auto
  then show ?thesis
    by (cases "parse_uint mx (show_nat n)") auto
qed

lemma show_nat_no_sep: "\<not> is_digit c \<Longrightarrow> c \<notin> set (show_nat n)"
  using show_nat_digits [of n] by (auto simp: list_all_iff)

section \<open>Addresses\<close>

datatype ip_addr = V4 u8 u8 u8 u8 | V6 "u16 list"

datatype socket_addr = SocketAddr (sa_ip: ip_addr) (sa_port: u16)

text \<open>The recursive-descent reader behind \<^verbatim>\<open>str::parse::<IpAddr>\<close>: each reader takes the rest
  of the input and either fails, which leaves the input where it was, or gives a value and the
  rest.\<close>

type_synonym 'a reader = "string \<Rightarrow> ('a \<times> string) option"

definition to_digit :: "nat \<Rightarrow> char \<Rightarrow> nat option" where
  "to_digit radix c =
     (let n = of_char c;
          d = (if 48 \<le> n \<and> n \<le> 57 then n - 48
               else if 97 \<le> n \<and> n \<le> 122 then n - 87
               else if 65 \<le> n \<and> n \<le> 90 then n - 55
               else radix)
      in if d < radix then Some d else None)"

fun read_digits :: "nat \<Rightarrow> nat \<Rightarrow> nat \<Rightarrow> nat \<Rightarrow> nat \<Rightarrow> string \<Rightarrow> (nat \<times> nat \<times> string) option" where
  "read_digits radix maxd maxv cnt acc [] = Some (cnt, acc, [])"
| "read_digits radix maxd maxv cnt acc (c # cs) =
     (case to_digit radix c of
        None \<Rightarrow> Some (cnt, acc, c # cs)
      | Some d \<Rightarrow>
          if maxv < acc * radix + d then None
          else if maxd < cnt + 1 then None
          else read_digits radix maxd maxv (cnt + 1) (acc * radix + d) cs)"

definition read_number :: "nat \<Rightarrow> nat \<Rightarrow> nat \<Rightarrow> bool \<Rightarrow> nat reader" where
  "read_number radix maxd maxv allow_zero_prefix s =
     (case read_digits radix maxd maxv 0 0 s of
        None \<Rightarrow> None
      | Some (cnt, v, rest) \<Rightarrow>
          if cnt = 0 then None
          else if \<not> allow_zero_prefix \<and> hd s = CHR ''0'' \<and> 1 < cnt then None
          else Some (v, rest))"

definition read_separator :: "char \<Rightarrow> nat \<Rightarrow> 'a reader \<Rightarrow> 'a reader" where
  "read_separator sep i inner s =
     (if i = 0 then inner s
      else (case s of [] \<Rightarrow> None | c # cs \<Rightarrow> if c = sep then inner cs else None))"

definition read_octet :: "nat \<Rightarrow> nat reader" where
  "read_octet i = read_separator CHR ''.'' i (read_number 10 3 255 False)"

definition read_ipv4_addr :: "(u8 \<times> u8 \<times> u8 \<times> u8) reader" where
  "read_ipv4_addr s =
     (case read_octet 0 s of None \<Rightarrow> None | Some (a, s1) \<Rightarrow>
      case read_octet 1 s1 of None \<Rightarrow> None | Some (b, s2) \<Rightarrow>
      case read_octet 2 s2 of None \<Rightarrow> None | Some (c, s3) \<Rightarrow>
      case read_octet 3 s3 of None \<Rightarrow> None | Some (d, s4) \<Rightarrow>
        Some ((of_nat a, of_nat b, of_nat c, of_nat d), s4))"

text \<open>\<open>read_groups left i\<close> reads up to \<open>left\<close> colon-separated groups, the first of them at
  index \<open>i\<close>; with two or more left an embedded IPv4 address may end the run.\<close>

fun read_groups :: "nat \<Rightarrow> nat \<Rightarrow> string \<Rightarrow> u16 list \<times> bool \<times> string" where
  "read_groups 0 i s = ([], False, s)"
| "read_groups (Suc left) i s =
     (case (if 0 < left then read_separator CHR '':'' i read_ipv4_addr s else None) of
        Some ((a, b, c, d), rest) \<Rightarrow>
          ([ucast a * 256 + ucast b, ucast c * 256 + ucast d], True, rest)
      | None \<Rightarrow>
          (case read_separator CHR '':'' i (read_number 16 4 65535 True) s of
             None \<Rightarrow> ([], False, s)
           | Some (g, rest) \<Rightarrow>
               (case read_groups left (i + 1) rest of
                  (gs, v4, rest') \<Rightarrow> (of_nat g # gs, v4, rest'))))"

definition read_ipv6_addr :: "u16 list reader" where
  "read_ipv6_addr s =
     (case read_groups 8 0 s of (head, head_ipv4, rest) \<Rightarrow>
        if length head = 8 then Some (head, rest)
        else if head_ipv4 then None
        else
          (case rest of
             c1 # c2 # rest1 \<Rightarrow>
               if c1 = CHR '':'' \<and> c2 = CHR '':'' then
                 (case read_groups (8 - (length head + 1)) 0 rest1 of
                    (tail, _, rest2) \<Rightarrow>
                      Some (head @ replicate (8 - length head - length tail) 0 @ tail, rest2))
               else None
           | _ \<Rightarrow> None))"

definition read_ip_addr :: "ip_addr reader" where
  "read_ip_addr s =
     (case read_ipv4_addr s of
        Some ((a, b, c, d), rest) \<Rightarrow> Some (V4 a b c d, rest)
      | None \<Rightarrow>
          (case read_ipv6_addr s of
             Some (gs, rest) \<Rightarrow> Some (V6 gs, rest)
           | None \<Rightarrow> None))"

definition parse_ip :: "string \<Rightarrow> ip_addr option" where
  "parse_ip s = (case read_ip_addr s of Some (a, []) \<Rightarrow> Some a | _ \<Rightarrow> None)"

text \<open>Evaluation of the readers on concrete strings, and the corner cases of the grammar: no
  zero prefix in an octet, an embedded IPv4 tail, one run of zeroes only.\<close>

named_theorems std_eval \<open>equations that evaluate the readers on literals\<close>

lemmas read_groups_numeral [std_eval] =
  read_groups.simps(2) [where left = "pred_numeral k" for k, folded numeral_eq_Suc]

lemma replicate_numeral_unfold [std_eval]:
  "replicate (numeral k) x = x # replicate (pred_numeral k) x"
  by (simp add: numeral_eq_Suc)

lemmas reader_defs [std_eval] =
  parse_ip_def read_ip_addr_def read_ipv4_addr_def read_ipv6_addr_def read_octet_def
  read_separator_def read_number_def to_digit_def

lemmas number_defs [std_eval] =
  parse_u16_def parse_usize_def parse_uint_def digit_val_def is_digit_def

lemma parse_ip_v4_examples:
  "parse_ip ''10.0.0.1'' = Some (V4 10 0 0 1)"
  "parse_ip ''10.0.0.01'' = None"
  "parse_ip ''10.0.0.256'' = None"
  "parse_ip ''10.0.0'' = None"
  by (simp_all add: std_eval)

lemma parse_ip_v6_examples:
  "parse_ip ''fe80::1'' = Some (V6 [65152, 0, 0, 0, 0, 0, 0, 1])"
  "parse_ip ''::ffff:1.2.3.4'' = Some (V6 [0, 0, 0, 0, 0, 65535, 258, 772])"
  "parse_ip ''1:2:3:4:5:6:7:8'' = Some (V6 [1, 2, 3, 4, 5, 6, 7, 8])"
  "parse_ip ''1:2:3:4:5:6:7::'' = Some (V6 [1, 2, 3, 4, 5, 6, 7, 0])"
  "parse_ip ''1::2::3'' = None"
  "parse_ip ''::'' = Some (V6 [0, 0, 0, 0, 0, 0, 0, 0])"
  by (simp_all add: std_eval)

lemma parse_u16_examples:
  "parse_u16 ''80'' = Inr 80"
  "parse_u16 ''+80'' = Inr 80"
  "parse_u16 ''65536'' = Inl PosOverflow"
  "parse_u16 ''-1'' = Inl InvalidDigit"
  "parse_u16 [] = Inl Empty"
  by (simp_all add: std_eval)

end
