(* ===== verification/Endpoint.thy ===== *)
theory Endpoint
  imports Rust_Std
begin

text \<open>
  The data of \<^verbatim>\<open>src/src/backend/endpoint.rs\<close>: the events a discovery task sends
  (\<open>endpoint_event\<close>), the identity of an endpoint inside the service manager
  (\<open>endpoint_id\<close>, the discovery task's name together with the task's own uid) and the
  endpoint itself. The constructor functions of the source are kept; their generic
  \<^verbatim>\<open>Into\<close> parameters only convert to the field's type.
  A task behind the trait \<^verbatim>\<open>EndpointDiscovery\<close> is a record of its methods: its name, and how the
  asynchronous task that \<^verbatim>\<open>run_with_sender\<close> spawns ends, given the sender \<open>'s\<close> of its channel.
\<close>

record ('s, 'o) endpoint_discovery =
  ed_name :: string
  ed_run_with_sender :: "'s \<Rightarrow> 'o"

datatype endpoint_event =
    is_Add: Add (ev_uid: string) bool u16 string socket_addr string
  | Delete (ev_uid: string)
  | Suspend (ev_uid: string)
  | Resume (ev_uid: string)

definition endpoint_event_add ::
    "string \<Rightarrow> bool \<Rightarrow> u16 \<Rightarrow> string \<Rightarrow> socket_addr \<Rightarrow> string \<Rightarrow> endpoint_event" where
  "endpoint_event_add uid is_available external_port external_protocol backend_address
     backend_protocol =
     Add uid is_available external_port external_protocol backend_address backend_protocol"

definition endpoint_event_delete :: "string \<Rightarrow> endpoint_event" where
  "endpoint_event_delete uid = Delete uid"

definition endpoint_event_suspend :: "string \<Rightarrow> endpoint_event" where
  "endpoint_event_suspend uid = Suspend uid"

definition endpoint_event_resume :: "string \<Rightarrow> endpoint_event" where
  "endpoint_event_resume uid = Resume uid"

lemmas endpoint_event_defs [simp] =
  endpoint_event_add_def endpoint_event_delete_def endpoint_event_suspend_def
  endpoint_event_resume_def

record endpoint_id =
  endpoint_discovery_name :: string
  id_uid :: string

definition endpoint_id_new :: "string \<Rightarrow> string \<Rightarrow> endpoint_id" where
  "endpoint_id_new name uid = \<lparr>endpoint_discovery_name = name, id_uid = uid\<rparr>"

definition endpoint_id_fmt :: "endpoint_id \<Rightarrow> string" where
  "endpoint_id_fmt i = ''('' @ endpoint_discovery_name i @ '', '' @ id_uid i @ '')''"

record endpoint =
  is_available :: bool
  ep_address :: socket_addr
  ep_protocol :: string

definition endpoint_new :: "bool \<Rightarrow> socket_addr \<Rightarrow> string \<Rightarrow> endpoint" where
  "endpoint_new avail addr proto = \<lparr>is_available = avail, ep_address = addr, ep_protocol = proto\<rparr>"

lemma endpoint_new_sel [simp]:
  "is_available (endpoint_new a x p) = a"
  "ep_address (endpoint_new a x p) = x"
  "ep_protocol (endpoint_new a x p) = p"
  by (simp_all add: endpoint_new_def)

lemma endpoint_id_new_inject [simp]:
  "endpoint_id_new n u = endpoint_id_new n' u' \<longleftrightarrow> n = n' \<and> u = u'"
  by (simp add: endpoint_id_new_def)

end
