(* ===== verification/Service_Manager.thy ===== *)
theory Service_Manager
  imports Endpoint
begin

text \<open>
  \<^verbatim>\<open>ServiceManager\<close> of \<^verbatim>\<open>src/src/backend/mod.rs\<close>. The state is the record
  \<open>service_manager\<close>, one field per field of the struct; a method that holds the write
  lock on the port map until it returns is one function from state to state.

  The channel behind \<^verbatim>\<open>port_event_sender\<close> is tokio's and not part of the repository: its state
  is a type variable \<open>'c\<close> and \<^verbatim>\<open>Sender::send\<close> is the argument
  \<open>send :: 'c \<Rightarrow> port_event \<Rightarrow> 'c option\<close> of the operations that use it, \<open>None\<close> being
  the error it returns once the receiver is gone. What is relied on is \<open>channel_contract\<close>: an
  accepted message is appended to the messages delivered so far. The metrics of the
  \<^verbatim>\<open>metered\<close> crate are a type variable \<open>'m\<close>.

  A panic does not roll the state back: the operations return the state they reached
  together with the outcome.
\<close>

section \<open>Data\<close>

datatype port_event = Open u16 string | Close u16

record service =
  svc_port :: u16
  svc_protocol :: string
  svc_endpoints :: "(endpoint_id, endpoint) hash_map"

definition service_new ::
    "u16 \<Rightarrow> string \<Rightarrow> (endpoint_id, endpoint) hash_map \<Rightarrow> service" where
  "service_new port protocol endpoints =
     \<lparr>svc_port = port, svc_protocol = protocol, svc_endpoints = endpoints\<rparr>"

type_synonym port_map = "(u16, service) hash_map"

record ('m, 'c) service_manager =
  registered_endpoint_discovery_names :: "string hash_set"
  port_service_map :: port_map
  port_event_sender :: "'c option"
  endpoint_discovery_metrics :: "(string, 'm) hash_map"

definition service_manager_new :: "('m, 'c) service_manager" where
  "service_manager_new =
     \<lparr>registered_endpoint_discovery_names = [], port_service_map = [],
      port_event_sender = None, endpoint_discovery_metrics = []\<rparr>"

text \<open>The one line each event handler may log at warning level.\<close>

datatype warning = UnknownEndpoint endpoint_event string

section \<open>Sending port events\<close>

definition send_event ::
    "('c \<Rightarrow> port_event \<Rightarrow> 'c option) \<Rightarrow> 'c option \<Rightarrow> port_event \<Rightarrow> 'c option outcome" where
  "send_event send sender event =
     (case sender of
        None \<Rightarrow> Done None
      | Some c \<Rightarrow>
          (case send c event of
             None \<Rightarrow> Panic ''TODO: can't send port event''
           | Some c' \<Rightarrow> Done (Some c')))"

text \<open>The loop of \<open>send_port_events_to\<close> over the services present.\<close>

fun send_open_events ::
    "('c \<Rightarrow> port_event \<Rightarrow> 'c option) \<Rightarrow> 'c \<Rightarrow> service list \<Rightarrow> 'c option" where
  "send_open_events send c [] = Some c"
| "send_open_events send c (s # ss) =
     (case send c (Open (svc_port s) (svc_protocol s)) of
        None \<Rightarrow> None
      | Some c' \<Rightarrow> send_open_events send c' ss)"

definition send_port_events_to ::
    "('c \<Rightarrow> port_event \<Rightarrow> 'c option) \<Rightarrow> ('m, 'c) service_manager \<Rightarrow> 'c \<Rightarrow>
     ('m, 'c) service_manager" where
  "send_port_events_to send sm new_sender =
     (case send_open_events send new_sender (hm_values (port_service_map sm)) of
        None \<Rightarrow> sm
      | Some c \<Rightarrow> sm\<lparr>port_event_sender := Some c\<rparr>)"

section \<open>Selecting an endpoint\<close>

fun first_available :: "endpoint list \<Rightarrow> (socket_addr \<times> string) option" where
  "first_available [] = None"
| "first_available (e # es) =
     (if is_available e then Some (ep_address e, ep_protocol e) else first_available es)"

definition get_endpoint_for ::
    "('m, 'c) service_manager \<Rightarrow> u16 \<Rightarrow> usize \<Rightarrow> (socket_addr \<times> string) option outcome" where
  "get_endpoint_for sm port index =
     (case hm_get (port_service_map sm) port of
        None \<Rightarrow> Done None
      | Some service \<Rightarrow>
          let endpoints = hm_values (svc_endpoints service);
              n_endpoints = length endpoints
          in if n_endpoints = 0
             then Panic ''attempt to calculate the remainder with a divisor of zero''
             else
               let i = unat index mod n_endpoints
               in (case first_available (drop i endpoints) of
                     Some r \<Rightarrow> Done (Some r)
                   | None \<Rightarrow> Done (first_available (take (n_endpoints - i) endpoints))))"

section \<open>Registering a discovery task\<close>

datatype register_error = AlreadyRegistered string

text \<open>The state after the call, and the channel and listener task it starts; the listener is
  \<open>listen_for_discovery_events\<close> below.\<close>

definition register_endpoint_discovery ::
    "'m \<Rightarrow> ('m, 'c) service_manager \<Rightarrow> string \<Rightarrow> register_error + ('m, 'c) service_manager" where
  "register_endpoint_discovery new_metrics sm name =
     (if name \<in> set (registered_endpoint_discovery_names sm)
      then Inl (AlreadyRegistered name)
      else Inr (sm\<lparr>endpoint_discovery_metrics :=
                     hm_insert name new_metrics (endpoint_discovery_metrics sm),
                   registered_endpoint_discovery_names :=
                     fst (hs_insert name (registered_endpoint_discovery_names sm))\<rparr>))"

section \<open>Processing an endpoint event\<close>

definition process_add ::
    "('c \<Rightarrow> port_event \<Rightarrow> 'c option) \<Rightarrow> ('m, 'c) service_manager \<Rightarrow> string \<Rightarrow> string \<Rightarrow> bool \<Rightarrow>
     u16 \<Rightarrow> string \<Rightarrow> socket_addr \<Rightarrow> string \<Rightarrow>
     ('m, 'c) service_manager \<times> warning option outcome" where
  "process_add send sm from uid avail external_port external_protocol backend_address
     backend_protocol =
     (let psm = port_service_map sm;
          endpoint_id = endpoint_id_new from uid;
          endpoint = endpoint_new avail backend_address backend_protocol
      in case hm_get psm external_port of
           None \<Rightarrow>
             let sm1 = sm\<lparr>port_service_map :=
                   hm_insert external_port
                     (service_new external_port external_protocol [(endpoint_id, endpoint)]) psm\<rparr>
             in (case send_event send (port_event_sender sm1)
                        (Open external_port external_protocol) of
                   Panic p \<Rightarrow> (sm1, Panic p)
                 | Done s' \<Rightarrow> (sm1\<lparr>port_event_sender := s'\<rparr>, Done None))
         | Some service \<Rightarrow>
             (sm\<lparr>port_service_map :=
                hm_insert external_port
                  (service\<lparr>svc_endpoints :=
                     (case hm_get (svc_endpoints service) endpoint_id of
                        None \<Rightarrow> hm_insert endpoint_id endpoint (svc_endpoints service)
                      | Some _ \<Rightarrow> hm_insert endpoint_id endpoint (svc_endpoints service))\<rparr>)
                  psm\<rparr>, Done None))"

text \<open>The loop of the \<^verbatim>\<open>Delete\<close> branch over all services: the map with the endpoint
  removed, the ports left without endpoints in iteration order, and whether it was found.\<close>

fun remove_endpoint :: "endpoint_id \<Rightarrow> port_map \<Rightarrow> port_map \<times> u16 list \<times> bool" where
  "remove_endpoint eid [] = ([], [], False)"
| "remove_endpoint eid ((port, service) # rest) =
     (let removed = hm_get (svc_endpoints service) eid \<noteq> None;
          service' = service\<lparr>svc_endpoints := hm_remove eid (svc_endpoints service)\<rparr>;
          (rest', to_delete, found) = remove_endpoint eid rest
      in ((port, service') # rest',
          (if svc_endpoints service' = [] then port # to_delete else to_delete),
          removed \<or> found))"

text \<open>The loop over \<^verbatim>\<open>services_to_delete\<close>: unwrap the removed service, then send \<^verbatim>\<open>Close\<close>.\<close>

fun close_services ::
    "('c \<Rightarrow> port_event \<Rightarrow> 'c option) \<Rightarrow> port_map \<Rightarrow> 'c option \<Rightarrow> u16 list \<Rightarrow>
     port_map \<times> 'c option \<times> unit outcome" where
  "close_services send psm sender [] = (psm, sender, Done ())"
| "close_services send psm sender (port # ports) =
     (case hm_get psm port of
        None \<Rightarrow> (psm, sender, Panic ''called `Option::unwrap()` on a `None` value'')
      | Some _ \<Rightarrow>
          let psm' = hm_remove port psm
          in (case send_event send sender (Close port) of
                Panic p \<Rightarrow> (psm', sender, Panic p)
              | Done sender' \<Rightarrow> close_services send psm' sender' ports))"

definition process_delete ::
    "('c \<Rightarrow> port_event \<Rightarrow> 'c option) \<Rightarrow> ('m, 'c) service_manager \<Rightarrow> string \<Rightarrow> string \<Rightarrow>
     ('m, 'c) service_manager \<times> warning option outcome" where
  "process_delete send sm from uid =
     (let (psm, to_delete, found) =
            remove_endpoint (endpoint_id_new from uid) (port_service_map sm);
          (psm', sender', res) = close_services send psm (port_event_sender sm) to_delete;
          sm' = sm\<lparr>port_service_map := psm', port_event_sender := sender'\<rparr>
      in (sm', (case res of
                  Panic p \<Rightarrow> Panic p
                | Done _ \<Rightarrow> Done (if found then None else Some (UnknownEndpoint (Delete uid) from)))))"

text \<open>\<^verbatim>\<open>Suspend\<close> and \<^verbatim>\<open>Resume\<close> run the same loop and differ in the flag they write and in the
  value they skip.\<close>

definition suspend_endpoint :: "endpoint_id \<Rightarrow> service \<Rightarrow> service" where
  "suspend_endpoint eid service =
     (case hm_get (svc_endpoints service) eid of
        None \<Rightarrow> service
      | Some e \<Rightarrow>
          if is_available e
          then service\<lparr>svc_endpoints :=
                 hm_insert eid (e\<lparr>is_available := False\<rparr>) (svc_endpoints service)\<rparr>
          else service)"

definition resume_endpoint :: "endpoint_id \<Rightarrow> service \<Rightarrow> service" where
  "resume_endpoint eid service =
     (case hm_get (svc_endpoints service) eid of
        None \<Rightarrow> service
      | Some e \<Rightarrow>
          if \<not> is_available e
          then service\<lparr>svc_endpoints :=
                 hm_insert eid (e\<lparr>is_available := True\<rparr>) (svc_endpoints service)\<rparr>
          else service)"

definition has_endpoint :: "endpoint_id \<Rightarrow> port_map \<Rightarrow> bool" where
  "has_endpoint eid psm \<longleftrightarrow> list_ex (\<lambda>s. hm_get (svc_endpoints s) eid \<noteq> None) (hm_values psm)"

definition process_suspend ::
    "('m, 'c) service_manager \<Rightarrow> string \<Rightarrow> string \<Rightarrow>
     ('m, 'c) service_manager \<times> warning option outcome" where
  "process_suspend sm from uid =
     (let eid = endpoint_id_new from uid; psm = port_service_map sm
      in (sm\<lparr>port_service_map := hm_values_mut (suspend_endpoint eid) psm\<rparr>,
          Done (if has_endpoint eid psm then None else Some (UnknownEndpoint (Suspend uid) from))))"

definition process_resume ::
    "('m, 'c) service_manager \<Rightarrow> string \<Rightarrow> string \<Rightarrow>
     ('m, 'c) service_manager \<times> warning option outcome" where
  "process_resume sm from uid =
     (let eid = endpoint_id_new from uid; psm = port_service_map sm
      in (sm\<lparr>port_service_map := hm_values_mut (resume_endpoint eid) psm\<rparr>,
          Done (if has_endpoint eid psm then None else Some (UnknownEndpoint (Resume uid) from))))"

fun process_event ::
    "('c \<Rightarrow> port_event \<Rightarrow> 'c option) \<Rightarrow> ('m, 'c) service_manager \<Rightarrow> string \<Rightarrow> endpoint_event \<Rightarrow>
     ('m, 'c) service_manager \<times> warning option outcome" where
  "process_event send sm from (Add uid avail xport xproto baddr bproto) =
     process_add send sm from uid avail xport xproto baddr bproto"
| "process_event send sm from (Delete uid) = process_delete send sm from uid"
| "process_event send sm from (Suspend uid) = process_suspend sm from uid"
| "process_event send sm from (Resume uid) = process_resume sm from uid"

section \<open>The listener task\<close>

text \<open>
  \<open>listen_for_discovery_events\<close> takes the events its channel yields until the channel is
  closed. \<open>alive\<close> says for each event whether \<^verbatim>\<open>Weak::upgrade\<close> still finds the manager;
  \<open>meter\<close> is what the two nested \<^verbatim>\<open>measure!\<close> macros do to the metrics that the
  manager's table and the task share, given whether the measured expression returned.
\<close>

record ('t, 'h) discovery_metrics =
  event_throughput :: 't
  events_processed :: 'h

definition discovery_metrics_new :: "'t \<Rightarrow> 'h \<Rightarrow> ('t, 'h) discovery_metrics" where
  "discovery_metrics_new throughput_default hit_count_default =
     \<lparr>event_throughput = throughput_default, events_processed = hit_count_default\<rparr>"

text \<open>The nested macros: the throughput is measured inside of the hit count.\<close>

definition measure_event ::
    "(bool \<Rightarrow> 't \<Rightarrow> 't) \<Rightarrow> (bool \<Rightarrow> 'h \<Rightarrow> 'h) \<Rightarrow> bool \<Rightarrow> ('t, 'h) discovery_metrics \<Rightarrow>
     ('t, 'h) discovery_metrics" where
  "measure_event throughput hit_count returned m =
     (let m1 = m\<lparr>event_throughput := throughput returned (event_throughput m)\<rparr>
      in m1\<lparr>events_processed := hit_count returned (events_processed m1)\<rparr>)"

definition measured ::
    "('m \<Rightarrow> 'm) \<Rightarrow> string \<Rightarrow> ('m, 'c) service_manager \<Rightarrow> ('m, 'c) service_manager" where
  "measured f from sm =
     (case hm_get (endpoint_discovery_metrics sm) from of
        None \<Rightarrow> sm
      | Some m \<Rightarrow> sm\<lparr>endpoint_discovery_metrics :=
                      hm_insert from (f m) (endpoint_discovery_metrics sm)\<rparr>)"

text \<open>One round of the loop: the listener goes on with the manager's new state, or it ends, by the
  \<^verbatim>\<open>return\<close> for a manager that is gone or by the panic of the processing.\<close>

datatype listen_next = Continue | Finish "unit outcome"

definition listen_event ::
    "('c \<Rightarrow> port_event \<Rightarrow> 'c option) \<Rightarrow> (bool \<Rightarrow> 'm \<Rightarrow> 'm) \<Rightarrow> string \<Rightarrow> ('m, 'c) service_manager \<Rightarrow>
     endpoint_event \<Rightarrow> bool \<Rightarrow> ('m, 'c) service_manager \<times> listen_next" where
  "listen_event send meter from sm event alive =
     (if \<not> alive then (sm, Finish (Done ()))
      else (case process_event send sm from event of
              (sm', Panic p) \<Rightarrow> (measured (meter False) from sm', Finish (Panic p))
            | (sm', Done _) \<Rightarrow> (measured (meter True) from sm', Continue)))"

text \<open>The panic after the loop, once the channel is closed and empty.\<close>

definition listen_closed :: "string \<Rightarrow> unit outcome" where
  "listen_closed from =
     Panic (''TODO: discovery service '' @ from @ '' disconnected. Need to think what to do in this case'')"

fun listen_for_discovery_events ::
    "('c \<Rightarrow> port_event \<Rightarrow> 'c option) \<Rightarrow> (bool \<Rightarrow> 'm \<Rightarrow> 'm) \<Rightarrow> string \<Rightarrow> ('m, 'c) service_manager \<Rightarrow>
     (endpoint_event \<times> bool) list \<Rightarrow> ('m, 'c) service_manager \<times> unit outcome" where
  "listen_for_discovery_events send meter from sm [] = (sm, listen_closed from)"
| "listen_for_discovery_events send meter from sm ((event, alive) # events) =
     (case listen_event send meter from sm event alive of
        (sm', Finish r) \<Rightarrow> (sm', r)
      | (sm', Continue) \<Rightarrow> listen_for_discovery_events send meter from sm' events)"

section \<open>The invariant\<close>

text \<open>
  \<open>sm_wf\<close> holds in every state the manager can be in, also after a panic: the containers
  have no repeated keys, a service is stored under its own port, and exactly the registered
  tasks have metrics. \<open>sm_inv\<close> adds that no service is without endpoints, which a panic in the
  middle of a deletion can break.
\<close>

definition service_wf :: "u16 \<times> service \<Rightarrow> bool" where
  "service_wf e \<longleftrightarrow> svc_port (snd e) = fst e \<and> hm_wf (svc_endpoints (snd e))"

definition psm_wf :: "port_map \<Rightarrow> bool" where
  "psm_wf psm \<longleftrightarrow> hm_wf psm \<and> list_all service_wf psm"

definition psm_populated :: "port_map \<Rightarrow> bool" where
  "psm_populated psm \<longleftrightarrow> list_all (\<lambda>e. svc_endpoints (snd e) \<noteq> []) psm"

definition names_wf :: "('m, 'c) service_manager \<Rightarrow> bool" where
  "names_wf sm \<longleftrightarrow>
     distinct (registered_endpoint_discovery_names sm) \<and>
     hm_wf (endpoint_discovery_metrics sm) \<and>
     set (registered_endpoint_discovery_names sm) = fst ` set (endpoint_discovery_metrics sm)"

definition sm_wf :: "('m, 'c) service_manager \<Rightarrow> bool" where
  "sm_wf sm \<longleftrightarrow> psm_wf (port_service_map sm) \<and> names_wf sm"

definition sm_inv :: "('m, 'c) service_manager \<Rightarrow> bool" where
  "sm_inv sm \<longleftrightarrow> sm_wf sm \<and> psm_populated (port_service_map sm)"

lemma sm_inv_wf: "sm_inv sm \<Longrightarrow> sm_wf sm"
  by (simp add: sm_inv_def)

lemma sm_wf_hm_wf: "sm_wf sm \<Longrightarrow> hm_wf (port_service_map sm)"
  by (simp add: sm_wf_def psm_wf_def)

lemma psm_wf_get:
  assumes "psm_wf psm" and "hm_get psm p = Some s"
  shows "svc_port s = p" and "hm_wf (svc_endpoints s)"
  using assms hm_get_SomeD [of psm p s]
  by (auto simp: psm_wf_def list_all_iff service_wf_def)

lemma psm_populated_get:
  "psm_populated psm \<Longrightarrow> hm_get psm p = Some s \<Longrightarrow> svc_endpoints s \<noteq> []"
  using hm_get_SomeD [of psm p s] by (auto simp: psm_populated_def list_all_iff)

lemma names_wf_psm [simp]:
  "names_wf (sm\<lparr>port_service_map := psm\<rparr>) \<longleftrightarrow> names_wf sm"
  "names_wf (sm\<lparr>port_event_sender := c\<rparr>) \<longleftrightarrow> names_wf sm"
  by (simp_all add: names_wf_def)

lemma sm_wf_psm:
  "sm_wf (sm\<lparr>port_service_map := psm\<rparr>) \<longleftrightarrow> psm_wf psm \<and> names_wf sm"
  "sm_wf (sm\<lparr>port_service_map := psm, port_event_sender := c\<rparr>) \<longleftrightarrow> psm_wf psm \<and> names_wf sm"
  "sm_wf (sm\<lparr>port_event_sender := c\<rparr>) \<longleftrightarrow> sm_wf sm"
  by (auto simp: sm_wf_def names_wf_def)

lemma psm_wf_insert [wf_intros]:
  "psm_wf psm \<Longrightarrow> service_wf (p, s) \<Longrightarrow> psm_wf (hm_insert p s psm)"
  by (simp add: psm_wf_def wf_intros list_all_update)

lemma psm_populated_insert [wf_intros]:
  "psm_populated psm \<Longrightarrow> svc_endpoints s \<noteq> [] \<Longrightarrow> psm_populated (hm_insert p s psm)"
  by (simp add: psm_populated_def list_all_update)

lemma psm_wf_remove [wf_intros]: "psm_wf psm \<Longrightarrow> psm_wf (hm_remove p psm)"
  by (auto simp: psm_wf_def list_all_iff hm_remove_def hm_wf_def distinct_map_filter)

lemma psm_wf_remove_all [wf_intros]: "psm_wf psm \<Longrightarrow> psm_wf (fold hm_remove ps psm)"
  by (induction ps arbitrary: psm) (simp_all add: psm_wf_remove)

lemma psm_wf_values_mut [wf_intros]:
  assumes "psm_wf psm" and "\<And>e. service_wf e \<Longrightarrow> service_wf (fst e, f (snd e))"
  shows "psm_wf (hm_values_mut f psm)"
proof -
  have "list_all service_wf (hm_values_mut f psm)"
    using assms by (force simp: psm_wf_def list_all_iff hm_values_mut_def)
  then show ?thesis
    using assms(1) by (simp add: psm_wf_def wf_intros)
qed

section \<open>The loops of the deletion\<close>

definition drop_endpoint :: "endpoint_id \<Rightarrow> service \<Rightarrow> service" where
  "drop_endpoint eid s = s\<lparr>svc_endpoints := hm_remove eid (svc_endpoints s)\<rparr>"

lemma service_wf_drop: "service_wf e \<Longrightarrow> service_wf (fst e, drop_endpoint eid (snd e))"
  by (simp add: service_wf_def drop_endpoint_def wf_intros)

lemma remove_endpoint_eq:
  "remove_endpoint eid psm =
     (hm_values_mut (drop_endpoint eid) psm,
      map fst (filter (\<lambda>e. svc_endpoints (drop_endpoint eid (snd e)) = []) psm),
      has_endpoint eid psm)"
  by (induction eid psm rule: remove_endpoint.induct)
     (auto simp: drop_endpoint_def hm_values_mut_def has_endpoint_def hm_values_def)

text \<open>The messages a sender accepts, one after the other; \<open>None\<close> once one is refused.\<close>

definition accept ::
    "('c \<Rightarrow> port_event \<Rightarrow> 'c option) \<Rightarrow> 'c option \<Rightarrow> port_event \<Rightarrow> 'c option option" where
  "accept send sender e =
     (case send_event send sender e of Panic _ \<Rightarrow> None | Done sender' \<Rightarrow> Some sender')"

lemma accept_simps [simp]:
  "accept send None e = Some None"
  "accept send (Some c) e = map_option Some (send c e)"
  by (auto simp: accept_def send_event_def split: option.split)

lemma accept_all_None [simp]: "run_all (accept send) None es = Some None"
  by (induction es) simp_all

lemma accept_all_Some [simp]:
  "run_all (accept send) (Some c) es = map_option Some (run_all send c es)"
  by (induction send c es rule: run_all.induct) (auto split: option.split)

lemma send_event_eq_Panic:
  "send_event send sender e = Panic q \<longleftrightarrow>
     accept send sender e = None \<and> q = ''TODO: can't send port event''"
  by (auto simp: accept_def send_event_def split: option.splits)

text \<open>Where the loop over the ports stops, it has removed a prefix of them; it stops early
  only when the channel refuses a \<^verbatim>\<open>Close\<close>, never because a port is missing.\<close>

lemma close_services_spec:
  assumes "distinct ports" and "set ports \<subseteq> fst ` set psm"
    and "close_services send psm sender ports = (psm', sender', r)"
  shows "(r = Done () \<and> psm' = fold hm_remove ports psm \<and>
            run_all (accept send) sender (map Close ports) = Some sender') \<or>
         (\<exists>pre p rest. ports = pre @ p # rest \<and> psm' = fold hm_remove (pre @ [p]) psm \<and>
            run_all (accept send) sender (map Close pre) = Some sender' \<and>
            accept send sender' (Close p) = None \<and> r = Panic ''TODO: can't send port event'')"
  using assms
proof (induction send psm sender ports rule: close_services.induct)
  case (1 send psm sender)
  then show ?case by simp
next
  case (2 send psm sender port ports)
  from 2(3) obtain s where s: "hm_get psm port = Some s"
    by (cases "hm_get psm port") (auto simp: hm_get_None_iff)
  have keys: "set ports \<subseteq> fst ` set (hm_remove port psm)"
    using 2(2,3) by (force simp: hm_remove_def)
  show ?case
  proof (cases "send_event send sender (Close port)")
    case (Panic q)
    then have "accept send sender (Close port) = None" "q = ''TODO: can't send port event''"
      by (simp_all add: send_event_eq_Panic)
    moreover have "psm' = hm_remove port psm" "sender' = sender" "r = Panic q"
      using 2(4) s Panic by (simp_all add: Let_def)
    ultimately show ?thesis
      by (intro disjI2 exI [of _ "[]"]) simp
  next
    case (Done s')
    have run: "close_services send (hm_remove port psm) s' ports = (psm', sender', r)"
      using 2(4) s Done by (simp add: Let_def)
    have acc: "accept send sender (Close port) = Some s'"
      using Done by (simp add: accept_def)
    have "distinct ports" using 2(2) by simp
    from 2(1) [OF s refl Done this keys run] show ?thesis
    proof (elim disjE exE conjE)
      fix pre p rest
      assume "ports = pre @ p # rest" "psm' = fold hm_remove (pre @ [p]) (hm_remove port psm)"
        "run_all (accept send) s' (map Close pre) = Some sender'"
        "accept send sender' (Close p) = None" "r = Panic ''TODO: can't send port event''"
      then show ?thesis
        by (intro disjI2 exI [of _ "port # pre"] exI [of _ p] exI [of _ rest]) (simp add: acc)
    qed (simp add: acc)
  qed
qed

definition ports_to_close :: "endpoint_id \<Rightarrow> port_map \<Rightarrow> u16 list" where
  "ports_to_close eid psm =
     map fst (filter (\<lambda>e. svc_endpoints (drop_endpoint eid (snd e)) = []) psm)"

definition without_endpoint :: "endpoint_id \<Rightarrow> port_map \<Rightarrow> port_map" where
  "without_endpoint eid psm =
     fold hm_remove (ports_to_close eid psm) (hm_values_mut (drop_endpoint eid) psm)"

lemma ports_to_close_keys:
  "set (ports_to_close eid psm) \<subseteq> fst ` set (hm_values_mut (drop_endpoint eid) psm)"
  by (force simp: ports_to_close_def hm_values_mut_def)

lemma ports_to_close_distinct: "hm_wf psm \<Longrightarrow> distinct (ports_to_close eid psm)"
  by (simp add: ports_to_close_def hm_wf_def distinct_map_filter)

lemma ports_to_close_iff:
  "hm_wf psm \<Longrightarrow> p \<in> set (ports_to_close eid psm) \<longleftrightarrow>
     (\<exists>s. hm_get psm p = Some s \<and> svc_endpoints (drop_endpoint eid s) = [])"
  by (force simp: ports_to_close_def hm_get_in_set)

lemma hm_get_without_endpoint:
  assumes "hm_wf psm"
  shows "hm_get (without_endpoint eid psm) p =
     (case hm_get psm p of
        None \<Rightarrow> None
      | Some s \<Rightarrow> if svc_endpoints (drop_endpoint eid s) = [] then None
                 else Some (drop_endpoint eid s))"
  using assms
  by (auto simp: without_endpoint_def hm.get_remove_all wf_intros rust_simps restrict_map_def
      ports_to_close_iff split: option.splits)

lemma without_endpoint_wf: "psm_wf psm \<Longrightarrow> psm_wf (without_endpoint eid psm)"
  unfolding without_endpoint_def by (intro wf_intros service_wf_drop)

lemma without_endpoint_populated:
  assumes "psm_wf psm"
  shows "psm_populated (without_endpoint eid psm)"
proof -
  have wf: "hm_wf psm" "hm_wf (without_endpoint eid psm)"
    using assms without_endpoint_wf [OF assms] by (simp_all add: psm_wf_def)
  show ?thesis
    unfolding psm_populated_def list_all_iff
  proof
    fix e assume "e \<in> set (without_endpoint eid psm)"
    then have "hm_get (without_endpoint eid psm) (fst e) = Some (snd e)"
      by (simp add: hm_get_in_set [OF wf(2)])
    then show "svc_endpoints (snd e) \<noteq> []"
      by (auto simp: hm_get_without_endpoint [OF wf(1)] split: option.splits if_splits)
  qed
qed

lemma process_delete_eq:
  "process_delete send sm from uid =
     (let eid = endpoint_id_new from uid; psm = port_service_map sm;
          (psm', sender', res) = close_services send (hm_values_mut (drop_endpoint eid) psm)
                                   (port_event_sender sm) (ports_to_close eid psm)
      in (sm\<lparr>port_service_map := psm', port_event_sender := sender'\<rparr>,
          (case res of
             Panic p \<Rightarrow> Panic p
           | Done _ \<Rightarrow> Done (if has_endpoint eid psm then None
                             else Some (UnknownEndpoint (Delete uid) from)))))"
  by (simp add: process_delete_def remove_endpoint_eq ports_to_close_def Let_def split: prod.split)

text \<open>The two ways a deletion ends.\<close>

lemma process_delete_cases:
  assumes "hm_wf (port_service_map sm)" and "process_delete send sm from uid = (sm', r)"
  obtains (finished) c' where
      "sm' = sm\<lparr>port_service_map := without_endpoint (endpoint_id_new from uid) (port_service_map sm),
                port_event_sender := c'\<rparr>"
      "r = Done (if has_endpoint (endpoint_id_new from uid) (port_service_map sm) then None
                 else Some (UnknownEndpoint (Delete uid) from))"
      "run_all (accept send) (port_event_sender sm)
         (map Close (ports_to_close (endpoint_id_new from uid) (port_service_map sm))) = Some c'"
  | (panicked) pre p rest c' where
      "ports_to_close (endpoint_id_new from uid) (port_service_map sm) = pre @ p # rest"
      "sm' = sm\<lparr>port_service_map := fold hm_remove (pre @ [p])
                  (hm_values_mut (drop_endpoint (endpoint_id_new from uid)) (port_service_map sm)),
                port_event_sender := c'\<rparr>"
      "run_all (accept send) (port_event_sender sm) (map Close pre) = Some c'"
      "accept send c' (Close p) = None" "r = Panic ''TODO: can't send port event''"
proof -
  let ?eid = "endpoint_id_new from uid" and ?psm = "port_service_map sm"
  obtain psm' c' res where cs: "close_services send (hm_values_mut (drop_endpoint ?eid) ?psm)
      (port_event_sender sm) (ports_to_close ?eid ?psm) = (psm', c', res)"
    by (metis prod_cases3)
  from close_services_spec [OF ports_to_close_distinct [OF assms(1)] ports_to_close_keys cs]
  show ?thesis
  proof (elim disjE exE conjE)
    assume "res = Done ()" "psm' = fold hm_remove (ports_to_close ?eid ?psm)
        (hm_values_mut (drop_endpoint ?eid) ?psm)"
      "run_all (accept send) (port_event_sender sm) (map Close (ports_to_close ?eid ?psm)) = Some c'"
    with cs assms(2) show ?thesis
      by (intro finished [of c']) (auto simp: process_delete_eq without_endpoint_def Let_def)
  next
    fix pr p rest
    assume "ports_to_close ?eid ?psm = pr @ p # rest"
      "run_all (accept send) (port_event_sender sm) (map Close pr) = Some c'"
      "accept send c' (Close p) = None"
      "psm' = fold hm_remove (pr @ [p]) (hm_values_mut (drop_endpoint ?eid) ?psm)"
      "res = Panic ''TODO: can't send port event''"
    with cs assms(2) show ?thesis
      by (intro panicked [of pr p rest c']) (auto simp: process_delete_eq Let_def)
  qed
qed

section \<open>Suspending and resuming\<close>

text \<open>Both are one operation: write the flag, wherever the endpoint is.\<close>

definition flag_endpoint :: "bool \<Rightarrow> endpoint_id \<Rightarrow> service \<Rightarrow> service" where
  "flag_endpoint b eid s =
     (case hm_get (svc_endpoints s) eid of
        None \<Rightarrow> s
      | Some e \<Rightarrow> s\<lparr>svc_endpoints :=
                      hm_insert eid (e\<lparr>is_available := b\<rparr>) (svc_endpoints s)\<rparr>)"

lemma hm_insert_triv: "hm_get m k = Some v \<Longrightarrow> hm_insert k v m = m"
  unfolding hm_get_def hm_insert_def by (induction m) auto

lemma suspend_resume_flag:
  "suspend_endpoint eid = flag_endpoint False eid"
  "resume_endpoint eid = flag_endpoint True eid"
proof -
  have same: "s\<lparr>svc_endpoints := hm_insert eid (e\<lparr>is_available := b\<rparr>) (svc_endpoints s)\<rparr> = s"
    if "hm_get (svc_endpoints s) eid = Some e" "is_available e = b" for s :: service and e b
  proof -
    have "e\<lparr>is_available := b\<rparr> = e" using that(2) by simp
    then show ?thesis using hm_insert_triv [OF that(1)] by simp
  qed
  show "suspend_endpoint eid = flag_endpoint False eid"
    using same by (auto simp: fun_eq_iff suspend_endpoint_def flag_endpoint_def split: option.split)
  show "resume_endpoint eid = flag_endpoint True eid"
    using same by (auto simp: fun_eq_iff resume_endpoint_def flag_endpoint_def split: option.split)
qed

lemma flag_endpoint_sel [simp]:
  "svc_port (flag_endpoint b eid s) = svc_port s"
  "svc_protocol (flag_endpoint b eid s) = svc_protocol s"
  by (simp_all add: flag_endpoint_def split: option.split)

lemma hm_get_flag_endpoint:
  "hm_get (svc_endpoints (flag_endpoint b eid s)) i =
     (if i = eid then map_option (\<lambda>e. e\<lparr>is_available := b\<rparr>) (hm_get (svc_endpoints s) i)
      else hm_get (svc_endpoints s) i)"
  by (auto simp: flag_endpoint_def rust_simps split: option.split)

lemma hm_insert_nonempty [simp]: "hm_insert k v m \<noteq> []"
  by (cases m) (auto simp: hm_insert_def)

lemma service_wf_flag: "service_wf e \<Longrightarrow> service_wf (fst e, flag_endpoint b eid (snd e))"
  by (auto simp: service_wf_def flag_endpoint_def wf_intros split: option.split)

lemma flag_endpoint_populated:
  "svc_endpoints s \<noteq> [] \<Longrightarrow> svc_endpoints (flag_endpoint b eid s) \<noteq> []"
  by (simp add: flag_endpoint_def split: option.split)

lemma psm_populated_flag:
  "psm_populated psm \<Longrightarrow> psm_populated (hm_values_mut (flag_endpoint b eid) psm)"
  unfolding psm_populated_def hm_values_mut_def
  by (induction psm) (auto simp: flag_endpoint_populated)

lemmas event_defs =
  process_suspend_def process_resume_def suspend_resume_flag Let_def

section \<open>Every event keeps the invariant\<close>

lemma process_add_psm:
  assumes "process_add send sm from uid avail xport xproto baddr bproto = (sm', r)"
  shows "port_service_map sm' = hm_insert xport
      (case hm_get (port_service_map sm) xport of
         None \<Rightarrow> service_new xport xproto
                   [(endpoint_id_new from uid, endpoint_new avail baddr bproto)]
       | Some s \<Rightarrow> s\<lparr>svc_endpoints := hm_insert (endpoint_id_new from uid)
                       (endpoint_new avail baddr bproto) (svc_endpoints s)\<rparr>)
      (port_service_map sm)"
    and "names_wf sm' \<longleftrightarrow> names_wf sm"
  using assms
  by (auto simp: process_add_def Let_def split: option.splits outcome.splits)

lemma process_add_wf:
  assumes "sm_wf sm" and "process_add send sm from uid avail xport xproto baddr bproto = (sm', r)"
  shows "sm_wf sm'" and "sm_inv sm \<Longrightarrow> sm_inv sm'"
proof -
  show wf: "sm_wf sm'"
    using assms psm_wf_get [of "port_service_map sm" xport]
    by (auto simp: sm_wf_def process_add_psm [OF assms(2)] service_wf_def service_new_def
        intro!: wf_intros split: option.split)
  show "sm_inv sm \<Longrightarrow> sm_inv sm'"
    using wf by (auto simp: sm_inv_def process_add_psm [OF assms(2)] service_new_def
        intro!: wf_intros split: option.split)
qed

lemma process_event_wf:
  assumes "sm_wf sm" and "process_event send sm from ev = (sm', r)"
  shows "sm_wf sm'"
proof (cases ev)
  case (Add uid avail xport xproto baddr bproto)
  then show ?thesis using assms process_add_wf(1) by simp
next
  case (Delete uid)
  have psm: "psm_wf (port_service_map sm)" "hm_wf (port_service_map sm)" "names_wf sm"
    using assms(1) by (simp_all add: sm_wf_def psm_wf_def)
  from Delete assms(2) have "process_delete send sm from uid = (sm', r)" by simp
  with psm(2) show ?thesis
    by (rule process_delete_cases)
       (auto simp: sm_wf_psm psm without_endpoint_wf intro!: wf_intros service_wf_drop)
next
  case (Suspend uid)
  then show ?thesis
    using assms by (auto simp: event_defs sm_wf_def intro!: wf_intros service_wf_flag)
next
  case (Resume uid)
  then show ?thesis
    using assms by (auto simp: event_defs sm_wf_def intro!: wf_intros service_wf_flag)
qed

lemma process_event_inv:
  assumes "sm_inv sm" and "process_event send sm from ev = (sm', Done w)"
  shows "sm_inv sm'"
proof -
  have wf: "sm_wf sm'" "sm_wf sm"
    using assms process_event_wf by (auto simp: sm_inv_def)
  have psm: "psm_wf (port_service_map sm)" "hm_wf (port_service_map sm)"
    using wf(2) by (simp_all add: sm_wf_def psm_wf_def)
  have "psm_populated (port_service_map sm')"
  proof (cases ev)
    case (Add uid avail xport xproto baddr bproto)
    with assms(2) have "process_add send sm from uid avail xport xproto baddr bproto = (sm', Done w)"
      by simp
    from process_add_wf(2) [OF wf(2) this assms(1)] show ?thesis by (simp add: sm_inv_def)
  next
    case (Delete uid)
    with assms(2) have "process_delete send sm from uid = (sm', Done w)" by simp
    with psm(2) show ?thesis
      by (rule process_delete_cases) (auto simp: without_endpoint_populated psm)
  next
    case (Suspend uid)
    then show ?thesis using assms by (auto simp: event_defs sm_inv_def psm_populated_flag)
  next
    case (Resume uid)
    then show ?thesis using assms by (auto simp: event_defs sm_inv_def psm_populated_flag)
  qed
  with wf(1) show ?thesis by (simp add: sm_inv_def)
qed

end
