(* ===== verification/Service_Directory.thy ===== *)
theory Service_Directory
  imports Service_Manager
begin

text \<open>
  What the service manager promises. The abstract state is a \<open>directory\<close>: which ports are
  served, with which protocol and by which endpoints, as functions with no order and no channel.
  \<open>dir_step\<close> is the effect of one endpoint event on it, and the manager refines it.
  A listener of port events sees a sequence that \<open>replay\<close> folds into a set of open ports; the
  manager keeps that set equal to the ports it serves.
\<close>

section \<open>The abstract directory\<close>

type_synonym directory = "u16 \<rightharpoonup> string \<times> (endpoint_id \<rightharpoonup> endpoint)"

definition directory_of :: "port_map \<Rightarrow> directory" where
  "directory_of psm p =
     map_option (\<lambda>s. (svc_protocol s, hm_get (svc_endpoints s))) (hm_get psm p)"

definition dir_add :: "endpoint_id \<Rightarrow> endpoint \<Rightarrow> u16 \<Rightarrow> string \<Rightarrow> directory \<Rightarrow> directory" where
  "dir_add i e port proto d =
     d(port \<mapsto> (case d port of
                  None \<Rightarrow> (proto, [i \<mapsto> e])
                | Some (proto', eps) \<Rightarrow> (proto', eps(i \<mapsto> e))))"

definition dir_delete :: "endpoint_id \<Rightarrow> directory \<Rightarrow> directory" where
  "dir_delete i d p =
     (case d p of
        None \<Rightarrow> None
      | Some (proto, eps) \<Rightarrow>
          if eps(i := None) = Map.empty then None else Some (proto, eps(i := None)))"

definition dir_flag :: "bool \<Rightarrow> endpoint_id \<Rightarrow> directory \<Rightarrow> directory" where
  "dir_flag b i d p =
     map_option (\<lambda>(proto, eps).
       (proto, eps(i := map_option (\<lambda>e. e\<lparr>is_available := b\<rparr>) (eps i)))) (d p)"

fun dir_step :: "string \<Rightarrow> endpoint_event \<Rightarrow> directory \<Rightarrow> directory" where
  "dir_step from (Add uid avail xport xproto baddr bproto) d =
     dir_add (endpoint_id_new from uid) (endpoint_new avail baddr bproto) xport xproto d"
| "dir_step from (Delete uid) d = dir_delete (endpoint_id_new from uid) d"
| "dir_step from (Suspend uid) d = dir_flag False (endpoint_id_new from uid) d"
| "dir_step from (Resume uid) d = dir_flag True (endpoint_id_new from uid) d"

definition endpoint_at :: "directory \<Rightarrow> u16 \<Rightarrow> endpoint_id \<rightharpoonup> endpoint" where
  "endpoint_at d p i = (case d p of None \<Rightarrow> None | Some (_, eps) \<Rightarrow> eps i)"

subsection \<open>Laws of the directory\<close>

lemma endpoint_at_step:
  "endpoint_at (dir_step from (Add uid avail xport xproto baddr bproto) d) p i =
     (if p = xport \<and> i = endpoint_id_new from uid then Some (endpoint_new avail baddr bproto)
      else endpoint_at d p i)"
  "endpoint_at (dir_step from (Delete uid) d) p i =
     (if i = endpoint_id_new from uid then None else endpoint_at d p i)"
  "endpoint_at (dir_step from (Suspend uid) d) p i =
     (if i = endpoint_id_new from uid
      then map_option (\<lambda>e. e\<lparr>is_available := False\<rparr>) (endpoint_at d p i) else endpoint_at d p i)"
  "endpoint_at (dir_step from (Resume uid) d) p i =
     (if i = endpoint_id_new from uid
      then map_option (\<lambda>e. e\<lparr>is_available := True\<rparr>) (endpoint_at d p i) else endpoint_at d p i)"
     apply (auto simp: endpoint_at_def dir_add_def split: option.split)[1]
    apply (auto simp: endpoint_at_def dir_delete_def fun_eq_iff split: option.split; metis)[1]
   apply (auto simp: endpoint_at_def dir_flag_def split: option.split)[2]
  done

lemma endpoint_at_other_task:
  "endpoint_discovery_name i \<noteq> from \<Longrightarrow> endpoint_at (dir_step from ev d) p i = endpoint_at d p i"
  by (cases ev) (auto simp: endpoint_at_step endpoint_id_new_def simp del: dir_step.simps)

section \<open>The manager refines the directory\<close>

lemma directory_of_insert:
  "directory_of (hm_insert p s psm) =
     (directory_of psm)(p \<mapsto> (svc_protocol s, hm_get (svc_endpoints s)))"
  by (auto simp: directory_of_def fun_eq_iff rust_simps)

lemma hm_get_empty_iff: "hm_get m = Map.empty \<longleftrightarrow> m = []"
  by (cases m) (auto simp: hm_get_def fun_eq_iff split: if_splits)

lemma hm_get_drop_endpoint:
  "hm_get (svc_endpoints (drop_endpoint eid s)) = (hm_get (svc_endpoints s))(eid := None)"
  by (auto simp: drop_endpoint_def rust_simps fun_eq_iff)

lemma svc_protocol_drop [simp]: "svc_protocol (drop_endpoint eid s) = svc_protocol s"
  by (simp add: drop_endpoint_def)

lemma directory_of_without:
  assumes "hm_wf psm"
  shows "directory_of (without_endpoint eid psm) = dir_delete eid (directory_of psm)"
proof
  fix p
  show "directory_of (without_endpoint eid psm) p = dir_delete eid (directory_of psm) p"
    by (cases "hm_get psm p")
       (simp_all add: directory_of_def dir_delete_def hm_get_without_endpoint [OF assms]
         hm_get_drop_endpoint [symmetric] hm_get_empty_iff)
qed

lemma directory_of_flag:
  "directory_of (hm_values_mut (flag_endpoint b eid) psm) = dir_flag b eid (directory_of psm)"
proof
  fix p
  show "directory_of (hm_values_mut (flag_endpoint b eid) psm) p = dir_flag b eid (directory_of psm) p"
    by (cases "hm_get psm p")
       (auto simp: directory_of_def dir_flag_def rust_simps hm_get_flag_endpoint fun_eq_iff)
qed

lemma process_add_directory:
  "process_add send sm from uid avail xport xproto baddr bproto = (sm', r) \<Longrightarrow>
   directory_of (port_service_map sm') =
     dir_step from (Add uid avail xport xproto baddr bproto) (directory_of (port_service_map sm))"
  by (auto simp: process_add_psm directory_of_insert dir_add_def fun_eq_iff rust_simps
      service_new_def directory_of_def split: option.split)

lemma process_event_directory:
  assumes "sm_wf sm" and "process_event send sm from ev = (sm', Done w)"
  shows "directory_of (port_service_map sm') =
     dir_step from ev (directory_of (port_service_map sm))"
proof (cases ev)
  case (Add uid avail xport xproto baddr bproto)
  then show ?thesis using assms process_add_directory by simp
next
  case (Delete uid)
  have wf: "hm_wf (port_service_map sm)"
    using assms(1) by (simp add: sm_wf_def psm_wf_def)
  from Delete assms(2) have "process_delete send sm from uid = (sm', Done w)" by simp
  with wf show ?thesis
    by (rule process_delete_cases) (auto simp: directory_of_without wf Delete)
next
  case (Suspend uid)
  then show ?thesis using assms(2) by (auto simp: event_defs directory_of_flag)
next
  case (Resume uid)
  then show ?thesis using assms(2) by (auto simp: event_defs directory_of_flag)
qed

text \<open>A refused port event leaves services in the map that should be gone, or one that nobody was
  told of; the endpoints are still what the event makes of them.\<close>

lemma endpoint_at_closed:
  assumes "hm_wf psm" and "set ports \<subseteq> set (ports_to_close eid psm)"
  shows "endpoint_at (directory_of (fold hm_remove ports (hm_values_mut (drop_endpoint eid) psm))) p i =
     (if i = eid then None else endpoint_at (directory_of psm) p i)"
proof -
  have "hm_get (svc_endpoints s) i = None" if "p \<in> set ports" "hm_get psm p = Some s" "i \<noteq> eid" for s
  proof -
    have "svc_endpoints (drop_endpoint eid s) = []"
      using that(1,2) assms(2) ports_to_close_iff [OF assms(1), of p eid] by auto
    then have "hm_get (svc_endpoints (drop_endpoint eid s)) = Map.empty" by (simp add: hm_get_empty_iff)
    then show ?thesis using that(3) by (auto simp: hm_get_drop_endpoint fun_eq_iff split: if_splits)
  qed
  then show ?thesis
    using assms(1)
    by (auto simp: endpoint_at_def directory_of_def hm.get_remove_all wf_intros rust_simps restrict_map_def
        hm_get_drop_endpoint split: option.splits)
qed

lemma process_event_endpoints:
  assumes "sm_wf sm" and "process_event send sm from ev = (sm', r)"
  shows "endpoint_at (directory_of (port_service_map sm')) p i =
     endpoint_at (dir_step from ev (directory_of (port_service_map sm))) p i"
proof (cases r)
  case (Done w)
  then show ?thesis using process_event_directory assms by metis
next
  case (Panic q)
  show ?thesis
  proof (cases ev)
    case (Add uid avail xport xproto baddr bproto)
    then show ?thesis using assms(2) process_add_directory by fastforce
  next
    case (Delete uid)
    note wf = sm_wf_hm_wf [OF assms(1)]
    from Delete assms(2) have "process_delete send sm from uid = (sm', r)" by simp
    with wf show ?thesis
    proof (rule process_delete_cases)
      fix pre x rest c'
      assume ports: "ports_to_close (endpoint_id_new from uid) (port_service_map sm) = pre @ x # rest"
        and sm': "sm' = sm\<lparr>port_service_map := fold hm_remove (pre @ [x])
          (hm_values_mut (drop_endpoint (endpoint_id_new from uid)) (port_service_map sm)), port_event_sender := c'\<rparr>"
      have "set (pre @ [x]) \<subseteq> set (ports_to_close (endpoint_id_new from uid) (port_service_map sm))"
        by (auto simp: ports)
      from endpoint_at_closed [OF wf this] show ?thesis
        by (simp add: sm' Delete endpoint_at_step del: dir_step.simps fold_append)
    qed (use Panic in simp)
  qed (use assms(2) Panic in \<open>auto simp: event_defs\<close>)
qed

lemma has_endpoint_iff:
  assumes "hm_wf psm"
  shows "has_endpoint eid psm \<longleftrightarrow> (\<exists>p. endpoint_at (directory_of psm) p eid \<noteq> None)"
proof -
  have at: "endpoint_at (directory_of psm) p eid \<noteq> None \<longleftrightarrow>
      (\<exists>s. (p, s) \<in> set psm \<and> hm_get (svc_endpoints s) eid \<noteq> None)" for p
    by (simp add: endpoint_at_def directory_of_def hm_get_in_set [OF assms, symmetric]
        split: option.split)
  show ?thesis
    unfolding at by (force simp: has_endpoint_def list_ex_iff hm_values_def)
qed

lemma process_event_warns:
  assumes "sm_wf sm" and "process_event send sm from ev = (sm', Done w)"
  shows "w = (if is_Add ev \<or>
                (\<exists>p. endpoint_at (directory_of (port_service_map sm)) p
                       (endpoint_id_new from (ev_uid ev)) \<noteq> None)
              then None else Some (UnknownEndpoint ev from))"
proof -
  have wf: "hm_wf (port_service_map sm)"
    using assms(1) by (simp add: sm_wf_def psm_wf_def)
  note iff = has_endpoint_iff [OF wf]
  show ?thesis
  proof (cases ev)
    case (Add uid avail xport xproto baddr bproto)
    then show ?thesis
      using assms(2) by (auto simp: process_add_def Let_def split: option.splits outcome.splits)
  next
    case (Delete uid)
    with assms(2) have "process_delete send sm from uid = (sm', Done w)" by simp
    with wf show ?thesis
      by (rule process_delete_cases) (auto simp: iff Delete)
  next
    case (Suspend uid)
    then show ?thesis using assms(2) by (auto simp: event_defs iff split: if_splits)
  next
    case (Resume uid)
    then show ?thesis using assms(2) by (auto simp: event_defs iff split: if_splits)
  qed
qed

section \<open>Runs of events\<close>

definition try_event ::
    "('c \<Rightarrow> port_event \<Rightarrow> 'c option) \<Rightarrow> ('m, 'c) service_manager \<Rightarrow> string \<times> endpoint_event \<Rightarrow>
     ('m, 'c) service_manager option" where
  "try_event send sm fe =
     (case process_event send sm (fst fe) (snd fe) of
        (sm', Done _) \<Rightarrow> Some sm'
      | (_, Panic _) \<Rightarrow> None)"

lemma try_event_Some:
  "try_event send sm fe = Some sm' \<longleftrightarrow>
     (\<exists>w. process_event send sm (fst fe) (snd fe) = (sm', Done w))"
  by (auto simp: try_event_def split: prod.splits outcome.splits)

interpretation sm_sim: simulation "try_event send" "\<lambda>sm. directory_of (port_service_map sm)"
  "\<lambda>fe. dir_step (fst fe) (snd fe)" sm_inv for send
  by unfold_locales
     (auto simp: try_event_Some intro: process_event_inv process_event_directory sm_inv_wf)

section \<open>When an event panics\<close>

lemma process_event_not_refused:
  assumes "hm_wf (port_service_map sm)"
    and "port_event_sender sm = None \<or> (\<forall>c e. send c e \<noteq> None)"
  shows "\<exists>sm' w. process_event send sm from ev = (sm', Done w)"
proof (cases ev)
  case (Add uid avail xport xproto baddr bproto)
  then show ?thesis
    using assms(2)
    by (auto simp: process_add_def send_event_def Let_def split: option.split) (metis option.distinct(1))
next
  case (Delete uid)
  obtain sm' r where res: "process_delete send sm from uid = (sm', r)"
    by fastforce
  have "\<exists>w. r = Done w"
    using assms(1) res
  proof (rule process_delete_cases)
    fix pre p c'
    assume run: "run_all (accept send) (port_event_sender sm) (map Close pre) = Some c'"
      and refused: "accept send c' (Close p) = None"
    then obtain c where "c' = Some c" "send c (Close p) = None"
      by (cases c') auto
    with assms(2) run show ?thesis by auto (metis option.distinct(1))
  qed auto
  with res Delete show ?thesis by auto
next
  case (Suspend uid)
  then show ?thesis by (simp add: event_defs)
next
  case (Resume uid)
  then show ?thesis by (simp add: event_defs)
qed

section \<open>What a listener of port events sees\<close>

text \<open>\<open>replay\<close> folds a sequence of port events into the ports it leaves open, \<open>None\<close> when a port
  is opened twice or closed without being open.\<close>

fun replay_step :: "(u16 \<rightharpoonup> string) \<Rightarrow> port_event \<Rightarrow> (u16 \<rightharpoonup> string) option" where
  "replay_step ports (Open p proto) =
     (if ports p = None then Some (ports(p \<mapsto> proto)) else None)"
| "replay_step ports (Close p) = (if ports p = None then None else Some (ports(p := None)))"

definition replay :: "port_event list \<Rightarrow> (u16 \<rightharpoonup> string) option" where
  "replay es = run_all replay_step Map.empty es"

definition open_ports_of :: "port_map \<Rightarrow> u16 \<rightharpoonup> string" where
  "open_ports_of psm p = map_option svc_protocol (hm_get psm p)"

definition channel_contract ::
    "('c \<Rightarrow> 'e \<Rightarrow> 'c option) \<Rightarrow> ('c \<Rightarrow> 'e list) \<Rightarrow> bool" where
  "channel_contract send delivered \<longleftrightarrow>
     (\<forall>c e c'. send c e = Some c' \<longrightarrow> delivered c' = delivered c @ [e])"

definition in_sync :: "('c \<Rightarrow> port_event list) \<Rightarrow> ('m, 'c) service_manager \<Rightarrow> bool" where
  "in_sync delivered sm \<longleftrightarrow>
     (case port_event_sender sm of
        None \<Rightarrow> True
      | Some c \<Rightarrow> replay (delivered c) = Some (open_ports_of (port_service_map sm)))"

lemma in_sync_cong:
  "port_event_sender sm' = port_event_sender sm \<Longrightarrow>
   open_ports_of (port_service_map sm') = open_ports_of (port_service_map sm) \<Longrightarrow>
   in_sync delivered sm' \<longleftrightarrow> in_sync delivered sm"
  by (simp add: in_sync_def split: option.split)

lemma channel_run_all:
  "channel_contract send delivered \<Longrightarrow> run_all send c es = Some c' \<Longrightarrow>
     delivered c' = delivered c @ es"
  by (induction send c es rule: run_all.induct) (auto simp: channel_contract_def split: option.splits)

lemma replay_append:
  "replay es = Some m \<Longrightarrow> replay (es @ fs) = run_all replay_step m fs"
  by (simp add: replay_def run_all_append)

lemma in_sync_extend:
  assumes "channel_contract send delivered" and "in_sync delivered sm"
    and "run_all (accept send) (port_event_sender sm) es = Some c'"
    and "run_all replay_step (open_ports_of (port_service_map sm)) es = Some (open_ports_of psm')"
  shows "in_sync delivered (sm\<lparr>port_service_map := psm', port_event_sender := c'\<rparr>)"
  using assms
  by (cases "port_event_sender sm")
     (auto simp: in_sync_def channel_run_all replay_append)

lemma replay_closes:
  "distinct ps \<Longrightarrow> (\<And>p. p \<in> set ps \<Longrightarrow> m p \<noteq> None) \<Longrightarrow>
     run_all replay_step m (map Close ps) = Some (m |` (- set ps))"
proof (induction ps arbitrary: m)
  case Nil
  then show ?case by simp
next
  case (Cons p ps)
  have "run_all replay_step (m(p := None)) (map Close ps) = Some ((m(p := None)) |` (- set ps))"
    using Cons.prems by (intro Cons.IH) auto
  moreover have "(m(p := None)) |` (- set ps) = m |` (- set (p # ps))"
    by (auto simp: restrict_map_def fun_eq_iff)
  ultimately show ?case
    using Cons.prems(2) [of p] by simp
qed

lemma open_ports_of_without:
  "hm_wf psm \<Longrightarrow> open_ports_of (without_endpoint eid psm) =
     open_ports_of psm |` (- set (ports_to_close eid psm))"
  by (auto simp: fun_eq_iff open_ports_of_def hm_get_without_endpoint restrict_map_def
      ports_to_close_iff split: option.split)

lemma open_ports_of_flag:
  "open_ports_of (hm_values_mut (flag_endpoint b eid) psm) = open_ports_of psm"
  by (auto simp: fun_eq_iff open_ports_of_def rust_simps option.map_comp comp_def)

lemma process_event_in_sync:
  assumes "channel_contract send delivered" and "hm_wf (port_service_map sm)"
    and "in_sync delivered sm" and "process_event send sm from ev = (sm', Done w)"
  shows "in_sync delivered sm'"
proof (cases ev)
  case (Add uid avail xport xproto baddr bproto)
  show ?thesis
  proof (cases "hm_get (port_service_map sm) xport")
    case None
    let ?psm = "hm_insert xport (service_new xport xproto
        [(endpoint_id_new from uid, endpoint_new avail baddr bproto)]) (port_service_map sm)"
    from None Add assms(4) obtain c' where
      "sm' = sm\<lparr>port_service_map := ?psm, port_event_sender := c'\<rparr>"
      "accept send (port_event_sender sm) (Open xport xproto) = Some c'"
      by (auto simp: process_add_def Let_def accept_def split: outcome.splits)
    moreover have "run_all replay_step (open_ports_of (port_service_map sm)) [Open xport xproto] =
        Some (open_ports_of ?psm)"
      using None by (auto simp: open_ports_of_def rust_simps service_new_def fun_eq_iff)
    ultimately show ?thesis
      using in_sync_extend [OF assms(1,3), of "[Open xport xproto]" c' ?psm] by simp
  next
    case (Some s)
    with Add assms(3,4) show ?thesis
      by (auto simp: process_add_def Let_def in_sync_def open_ports_of_def rust_simps fun_eq_iff
          split: option.splits)
  qed
next
  case (Delete uid)
  then have "process_delete send sm from uid = (sm', Done w)" using assms(4) by simp
  with assms(2) show ?thesis
  proof (rule process_delete_cases)
    let ?eid = "endpoint_id_new from uid" and ?psm = "port_service_map sm"
    fix c'
    assume sm': "sm' = sm\<lparr>port_service_map := without_endpoint ?eid ?psm, port_event_sender := c'\<rparr>"
      and run: "run_all (accept send) (port_event_sender sm) (map Close (ports_to_close ?eid ?psm)) = Some c'"
    have "run_all replay_step (open_ports_of ?psm) (map Close (ports_to_close ?eid ?psm)) =
        Some (open_ports_of (without_endpoint ?eid ?psm))"
      using assms(2) ports_to_close_distinct [OF assms(2)]
      by (subst replay_closes) (auto simp: open_ports_of_without ports_to_close_iff open_ports_of_def)
    from in_sync_extend [OF assms(1,3) run this] show ?thesis by (simp add: sm')
  qed simp
next
  case (Suspend uid)
  then show ?thesis
    using assms(3,4) by (auto simp: event_defs in_sync_def open_ports_of_flag split: option.splits)
next
  case (Resume uid)
  then show ?thesis
    using assms(3,4) by (auto simp: event_defs in_sync_def open_ports_of_flag split: option.splits)
qed

text \<open>A listener that registers late is sent the open ports first and is in step from then on.\<close>

lemma send_open_events_run_all:
  "send_open_events send c ss = run_all send c (map (\<lambda>s. Open (svc_port s) (svc_protocol s)) ss)"
  by (induction send c ss rule: send_open_events.induct) (auto split: option.split)

lemma replay_opens:
  "psm_wf psm \<Longrightarrow> (\<And>p. p \<in> fst ` set psm \<Longrightarrow> m p = None) \<Longrightarrow>
     run_all replay_step m (map (\<lambda>s. Open (svc_port s) (svc_protocol s)) (hm_values psm)) =
       Some (m ++ open_ports_of psm)"
proof (induction psm arbitrary: m)
  case Nil
  then show ?case by (simp add: hm_values_def open_ports_of_def [abs_def] rust_simps map_add_def)
next
  case (Cons e psm)
  obtain p s where e: "e = (p, s)" by fastforce
  have wf: "psm_wf psm" "svc_port s = p" "p \<notin> fst ` set psm"
    using Cons.prems(1) by (auto simp: e psm_wf_def service_wf_def)
  have none: "hm_get psm p = None"
    using wf(3) by (simp add: hm_get_None_iff)
  let ?m = "m(p \<mapsto> svc_protocol s)"
  have "run_all replay_step ?m (map (\<lambda>s. Open (svc_port s) (svc_protocol s)) (hm_values psm)) =
      Some (?m ++ open_ports_of psm)"
    using wf(1,3) Cons.prems(2) by (intro Cons.IH) auto
  moreover have "?m ++ open_ports_of psm = m ++ open_ports_of (e # psm)"
    using none by (auto simp: fun_eq_iff map_add_def open_ports_of_def e rust_simps split: option.splits)
  ultimately show ?case
    using Cons.prems(2) [of p] wf(2) by (simp add: e hm_values_def)
qed

lemma send_port_events_to_in_sync:
  assumes "channel_contract send delivered" and "psm_wf (port_service_map sm)"
    and "delivered c = []" and "in_sync delivered sm"
  shows "in_sync delivered (send_port_events_to send sm c)"
proof (cases "send_open_events send c (hm_values (port_service_map sm))")
  case None
  then show ?thesis using assms(4) by (simp add: send_port_events_to_def)
next
  case (Some c')
  let ?es = "map (\<lambda>s. Open (svc_port s) (svc_protocol s)) (hm_values (port_service_map sm))"
  have "delivered c' = ?es"
    using channel_run_all [OF assms(1)] Some assms(3) by (simp add: send_open_events_run_all)
  moreover have "replay ?es = Some (open_ports_of (port_service_map sm))"
    using replay_opens [OF assms(2), of Map.empty] by (simp add: replay_def)
  ultimately show ?thesis
    using Some by (simp add: send_port_events_to_def in_sync_def)
qed

section \<open>Registration of discovery tasks\<close>

interpretation sm_reg: registry
  "\<lambda>sm. hm_get (endpoint_discovery_metrics sm)" fst snd
  "\<lambda>sm task. register_endpoint_discovery (snd task) sm (fst task)"
  names_wf
proof
  fix sm :: "('m, 'c) service_manager" and task :: "string \<times> 'm"
  let ?name = "fst task" and ?v = "snd task"
  assume inv: "names_wf sm"
  have taken: "?name \<in> set (registered_endpoint_discovery_names sm) \<longleftrightarrow>
      hm_get (endpoint_discovery_metrics sm) ?name \<noteq> None"
    using inv by (simp add: names_wf_def hm_get_None_iff del: not_None_eq)
  show "\<exists>e. register_endpoint_discovery ?v sm ?name = Inl e"
    if "hm_get (endpoint_discovery_metrics sm) ?name \<noteq> None"
    using that taken by (simp add: register_endpoint_discovery_def)
  assume free: "hm_get (endpoint_discovery_metrics sm) ?name = None"
  let ?sm = "sm\<lparr>endpoint_discovery_metrics := hm_insert ?name ?v (endpoint_discovery_metrics sm),
      registered_endpoint_discovery_names :=
        fst (hs_insert ?name (registered_endpoint_discovery_names sm))\<rparr>"
  have "names_wf ?sm"
    using inv by (simp add: names_wf_def rust_simps wf_intros)
  then show "\<exists>sm'. register_endpoint_discovery ?v sm ?name = Inr sm' \<and>
      hm_get (endpoint_discovery_metrics sm') = (hm_get (endpoint_discovery_metrics sm))(?name \<mapsto> ?v) \<and>
      names_wf sm'"
    using free taken
    by (auto simp: register_endpoint_discovery_def rust_simps fun_eq_iff simp del: not_None_eq)
qed

lemma register_frame:
  assumes "register_endpoint_discovery m sm name = Inr sm'"
  shows "port_service_map sm' = port_service_map sm" "port_event_sender sm' = port_event_sender sm"
  using assms by (auto simp: register_endpoint_discovery_def split: if_splits)

section \<open>Reachable states\<close>

text \<open>
  A step of the manager is one critical section: an event, a registration, a new listener, or
  a change of the order in which its containers are iterated. \<open>Panicked\<close> marks the steps in
  which the task that made them dies.
\<close>

datatype step_end = Returned | Panicked

definition shape :: "port_map \<Rightarrow> (u16 \<times> u16 \<times> string \<times> (endpoint_id \<times> endpoint) multiset) multiset" where
  "shape psm = mset (map (\<lambda>(p, s). (p, svc_port s, svc_protocol s, mset (svc_endpoints s))) psm)"

definition reordered :: "('m, 'c) service_manager \<Rightarrow> ('m, 'c) service_manager \<Rightarrow> bool" where
  "reordered sm sm' \<longleftrightarrow>
     shape (port_service_map sm) = shape (port_service_map sm') \<and>
     mset (registered_endpoint_discovery_names sm) = mset (registered_endpoint_discovery_names sm') \<and>
     mset (endpoint_discovery_metrics sm) = mset (endpoint_discovery_metrics sm') \<and>
     port_event_sender sm = port_event_sender sm'"

inductive sm_step ::
    "('c \<Rightarrow> port_event \<Rightarrow> 'c option) \<Rightarrow> ('c \<Rightarrow> port_event list) \<Rightarrow>
     ('m, 'c) service_manager \<Rightarrow> step_end \<Rightarrow> ('m, 'c) service_manager \<Rightarrow> bool"
  for send delivered where
  event: "process_event send sm from ev = (sm', Done w) \<Longrightarrow>
     sm_step send delivered sm Returned sm'"
| event_panic: "process_event send sm from ev = (sm', Panic q) \<Longrightarrow>
     sm_step send delivered sm Panicked sm'"
| register: "register_endpoint_discovery m sm name = Inr sm' \<Longrightarrow>
     sm_step send delivered sm Returned sm'"
| listener: "delivered c = [] \<Longrightarrow>
     sm_step send delivered sm Returned (send_port_events_to send sm c)"
| reorder: "reordered sm sm' \<Longrightarrow> sm_step send delivered sm Returned sm'"

inductive sm_reachable ::
    "('c \<Rightarrow> port_event \<Rightarrow> 'c option) \<Rightarrow> ('c \<Rightarrow> port_event list) \<Rightarrow> step_end set \<Rightarrow>
     ('m, 'c) service_manager \<Rightarrow> bool"
  for send delivered ends where
  start: "sm_reachable send delivered ends service_manager_new"
| step: "sm_reachable send delivered ends sm \<Longrightarrow> sm_step send delivered sm l sm' \<Longrightarrow> l \<in> ends \<Longrightarrow>
     sm_reachable send delivered ends sm'"

inductive_cases returnedE [consumes 1, case_names event register listener reorder]:
  "sm_step send delivered sm Returned sm'"

subsection \<open>Reordering the containers changes nothing that the theorems speak of\<close>

lemma shape_mem:
  "(p, a, b, M) \<in># shape psm \<longleftrightarrow>
     (\<exists>s. (p, s) \<in> set psm \<and> svc_port s = a \<and> svc_protocol s = b \<and> mset (svc_endpoints s) = M)"
  by (force simp: shape_def)

lemma shape_keys: "image_mset fst (shape psm) = mset (map fst psm)"
  by (simp add: shape_def multiset.map_comp comp_def case_prod_beta)

lemma shape_hm_wf: "shape psm = shape psm' \<Longrightarrow> hm_wf psm \<Longrightarrow> hm_wf psm'"
  using mset_eq_imp_distinct_iff [of "map fst psm" "map fst psm'"]
  by (metis shape_keys hm_wf_def)

lemma shape_lookup:
  assumes "shape psm = shape psm'" and "hm_wf psm" and "hm_get psm p = Some s"
  obtains s' where "hm_get psm' p = Some s'" "svc_port s' = svc_port s"
    "svc_protocol s' = svc_protocol s" "mset (svc_endpoints s) = mset (svc_endpoints s')"
proof -
  have "(p, svc_port s, svc_protocol s, mset (svc_endpoints s)) \<in># shape psm'"
    using assms by (auto simp: hm_get_in_set shape_mem simp flip: assms(1))
  then show ?thesis
    using that shape_hm_wf [OF assms(1,2)] by (auto simp: shape_mem hm_get_in_set)
qed

lemma shape_psm_wf: "shape psm = shape psm' \<Longrightarrow> psm_wf psm \<Longrightarrow> psm_wf psm'"
proof -
  assume sh: "shape psm = shape psm'" and wf: "psm_wf psm"
  have "service_wf (p, s')" if "(p, s') \<in> set psm'" for p s'
  proof -
    have "(p, svc_port s', svc_protocol s', mset (svc_endpoints s')) \<in># shape psm"
      unfolding sh using that by (auto simp: shape_mem)
    then obtain s where "(p, s) \<in> set psm" "svc_port s = svc_port s'"
        "mset (svc_endpoints s) = mset (svc_endpoints s')"
      by (auto simp: shape_mem)
    with wf show ?thesis
      using hm_wf_perm by (fastforce simp: psm_wf_def list_all_iff service_wf_def)
  qed
  with wf show ?thesis
    using shape_hm_wf [OF sh] by (auto simp: psm_wf_def list_all_iff)
qed

lemma shape_populated: "shape psm = shape psm' \<Longrightarrow> psm_populated psm \<Longrightarrow> psm_populated psm'"
proof -
  assume sh: "shape psm = shape psm'" and pop: "psm_populated psm"
  have "svc_endpoints s' \<noteq> []" if "(p, s') \<in> set psm'" for p s'
  proof -
    have "(p, svc_port s', svc_protocol s', mset (svc_endpoints s')) \<in># shape psm"
      unfolding sh using that by (auto simp: shape_mem)
    with pop show ?thesis
      by (fastforce simp: shape_mem psm_populated_def list_all_iff)
  qed
  then show ?thesis by (auto simp: psm_populated_def list_all_iff)
qed

lemma shape_directory:
  assumes sh: "shape psm = shape psm'" and wf: "psm_wf psm"
  shows "directory_of psm' = directory_of psm"
proof
  fix p
  have hw: "hm_wf psm" "hm_wf psm'"
    using wf shape_hm_wf [OF sh] by (simp_all add: psm_wf_def)
  show "directory_of psm' p = directory_of psm p"
  proof (cases "hm_get psm p")
    case None
    then have "hm_get psm' p = None"
      using shape_lookup [OF sh [symmetric] hw(2)] by (metis not_None_eq)
    with None show ?thesis by (simp add: directory_of_def)
  next
    case (Some s)
    then obtain s' where "hm_get psm' p = Some s'" "svc_protocol s' = svc_protocol s"
        "mset (svc_endpoints s) = mset (svc_endpoints s')"
      using shape_lookup [OF sh hw(1)] by metis
    with Some show ?thesis
      using hm_get_perm psm_wf_get(2) [OF wf Some] by (simp add: directory_of_def)
  qed
qed

lemma open_ports_of_directory: "open_ports_of psm p = map_option fst (directory_of psm p)"
  by (simp add: open_ports_of_def directory_of_def option.map_comp comp_def)

lemma reordered_kept:
  assumes "reordered sm sm'"
  shows "sm_wf sm \<Longrightarrow> sm_wf sm'" and "sm_inv sm \<Longrightarrow> sm_inv sm'"
    and "sm_wf sm \<Longrightarrow> in_sync delivered sm \<Longrightarrow> in_sync delivered sm'"
proof -
  have sh: "shape (port_service_map sm) = shape (port_service_map sm')"
    using assms by (simp add: reordered_def)
  have "names_wf sm \<Longrightarrow> names_wf sm'"
    using assms hm_wf_perm mset_eq_setD mset_eq_imp_distinct_iff
    unfolding reordered_def names_wf_def by metis
  then show wf: "sm_wf sm \<Longrightarrow> sm_wf sm'"
    using shape_psm_wf [OF sh] by (simp add: sm_wf_def)
  then show "sm_inv sm \<Longrightarrow> sm_inv sm'"
    using shape_populated [OF sh] by (simp add: sm_inv_def)
  have "sm_wf sm \<Longrightarrow> open_ports_of (port_service_map sm') = open_ports_of (port_service_map sm)"
    using shape_directory [OF sh] by (auto simp: fun_eq_iff open_ports_of_directory sm_wf_def)
  then show "sm_wf sm \<Longrightarrow> in_sync delivered sm \<Longrightarrow> in_sync delivered sm'"
    using assms in_sync_cong [of sm' sm] by (simp add: reordered_def)
qed

subsection \<open>Invariants of the reachable states\<close>

lemma sm_inv_new: "sm_inv service_manager_new"
  by (simp add: sm_inv_def sm_wf_def psm_wf_def psm_populated_def names_wf_def service_manager_new_def)

lemma send_port_events_to_frame:
  "sm_wf (send_port_events_to send sm c) \<longleftrightarrow> sm_wf sm"
  "sm_inv (send_port_events_to send sm c) \<longleftrightarrow> sm_inv sm"
  "port_service_map (send_port_events_to send sm c) = port_service_map sm"
  by (auto simp: send_port_events_to_def sm_inv_def sm_wf_psm split: option.split)

lemma register_inv:
  assumes "register_endpoint_discovery m sm name = Inr sm'"
  shows "sm_wf sm \<Longrightarrow> sm_wf sm'" and "sm_inv sm \<Longrightarrow> sm_inv sm'"
  using register_frame [OF assms] sm_reg.accepted(3) [of sm "(name, m)" sm'] assms
  by (auto simp: sm_inv_def sm_wf_def)

lemma sm_step_wf: "sm_step send delivered sm l sm' \<Longrightarrow> sm_wf sm \<Longrightarrow> sm_wf sm'"
  by (induction rule: sm_step.induct)
     (auto simp: send_port_events_to_frame dest: process_event_wf register_inv reordered_kept(1))

lemma sm_step_returned_inv: "sm_step send delivered sm Returned sm' \<Longrightarrow> sm_inv sm \<Longrightarrow> sm_inv sm'"
  by (erule returnedE)
     (auto simp: send_port_events_to_frame dest: process_event_inv register_inv reordered_kept(2))

lemma sm_step_returned_in_sync:
  assumes "channel_contract send delivered" and "sm_step send delivered sm Returned sm'"
    and "sm_wf sm" and "in_sync delivered sm"
  shows "in_sync delivered sm'"
  using assms(2)
proof (cases rule: returnedE)
  case (event "from" ev w)
  then show ?thesis using process_event_in_sync [OF assms(1) sm_wf_hm_wf assms(4)] assms(3) by blast
next
  case (register m name)
  then show ?thesis
    using in_sync_cong [of sm' sm] register_frame [OF register] assms(4) by simp
next
  case (listener c)
  then show ?thesis
    using send_port_events_to_in_sync [OF assms(1)] assms(3,4) by (auto simp: sm_wf_def)
next
  case reorder
  then show ?thesis using reordered_kept(3) assms(3,4) by blast
qed

lemma sm_reachable_wf: "sm_reachable send delivered ends sm \<Longrightarrow> sm_wf sm"
  by (induction rule: sm_reachable.induct) (auto intro: sm_inv_wf sm_inv_new sm_step_wf)

lemma sm_reachable_mono: "sm_reachable send delivered ends sm \<Longrightarrow> ends \<subseteq> ends' \<Longrightarrow> sm_reachable send delivered ends' sm"
  by (induction rule: sm_reachable.induct) (auto intro: sm_reachable.intros)

lemma sm_reachable_inv: "sm_reachable send delivered {Returned} sm \<Longrightarrow> sm_inv sm"
  by (induction rule: sm_reachable.induct) (auto intro: sm_inv_new sm_step_returned_inv)

lemma sm_reachable_in_sync:
  assumes "channel_contract send delivered"
  shows "sm_reachable send delivered {Returned} sm \<Longrightarrow> in_sync delivered sm"
proof (induction rule: sm_reachable.induct)
  case start
  then show ?case by (simp add: in_sync_def service_manager_new_def)
next
  case (step sm l sm')
  then show ?case
    using sm_step_returned_in_sync [OF assms] sm_reachable_wf by blast
qed

end
