(* ===== verification/Service_Selection.thy ===== *)
theory Service_Selection
  imports Service_Directory
begin

text \<open>
  Selecting an endpoint for a connection (\<open>get_endpoint_for\<close>): which positions of the
  iteration order the two loops visit, when the selection succeeds, and how it balances. The last
  section has the properties of the service manager as a whole.
\<close>

section \<open>The two loops\<close>

lemma first_available_None: "first_available es = None \<longleftrightarrow> (\<forall>e \<in> set es. \<not> is_available e)"
  by (induction es) auto

lemma first_available_SomeD:
  "first_available es = Some r \<Longrightarrow>
     \<exists>e \<in> set es. is_available e \<and> r = (ep_address e, ep_protocol e)"
  by (induction es) (auto split: if_splits)

lemma first_available_hd:
  "es \<noteq> [] \<Longrightarrow> is_available (hd es) \<Longrightarrow>
     first_available es = Some (ep_address (hd es), ep_protocol (hd es))"
  by (cases es) auto

definition visited :: "nat \<Rightarrow> nat \<Rightarrow> nat \<Rightarrow> bool" where
  "visited n i j \<longleftrightarrow> j < n \<and> (i \<le> j \<or> j < n - i)"

lemma in_set_drop_take:
  "e \<in> set (drop i es) \<or> e \<in> set (take (length es - i) es) \<longleftrightarrow>
     (\<exists>j. visited (length es) i j \<and> es ! j = e)"
proof -
  have "e \<in> set (drop i es) \<longleftrightarrow> (\<exists>j. i \<le> j \<and> j < length es \<and> es ! j = e)"
  proof
    assume "e \<in> set (drop i es)"
    then obtain k where "k < length es - i" "es ! (i + k) = e"
      by (auto simp: in_set_conv_nth)
    then show "\<exists>j. i \<le> j \<and> j < length es \<and> es ! j = e"
      by (intro exI [of _ "i + k"]) simp
  next
    assume "\<exists>j. i \<le> j \<and> j < length es \<and> es ! j = e"
    then obtain j where "i \<le> j" "j < length es" "es ! j = e" by blast
    then show "e \<in> set (drop i es)"
      by (auto simp: in_set_conv_nth intro!: exI [of _ "j - i"])
  qed
  moreover have "e \<in> set (take (length es - i) es) \<longleftrightarrow>
      (\<exists>j. j < length es - i \<and> es ! j = e)"
    by (auto simp: in_set_conv_nth)
  moreover have "j < length es - i \<Longrightarrow> j < length es" for j by simp
  ultimately show ?thesis
    unfolding visited_def by blast
qed

text \<open>With a start position in the first half, the loops visit every position.\<close>

lemma visited_all: "2 * i \<le> n \<Longrightarrow> j < n \<Longrightarrow> visited n i j"
  by (auto simp: visited_def)

lemma get_endpoint_for_unfold:
  assumes "hm_get (port_service_map sm) port = Some s" and "svc_endpoints s \<noteq> []"
  shows "get_endpoint_for sm port index =
     (let es = hm_values (svc_endpoints s); i = unat index mod length es
      in case first_available (drop i es) of
           Some r \<Rightarrow> Done (Some r)
         | None \<Rightarrow> Done (first_available (take (length es - i) es)))"
  using assms by (simp add: get_endpoint_for_def hm_values_def Let_def split: option.split)

lemma get_endpoint_for_None:
  assumes "hm_get (port_service_map sm) port = Some s" and "svc_endpoints s \<noteq> []"
  shows "get_endpoint_for sm port index = Done None \<longleftrightarrow>
     (\<forall>j. visited (length (svc_endpoints s)) (unat index mod length (svc_endpoints s)) j \<longrightarrow>
          \<not> is_available (hm_values (svc_endpoints s) ! j))"
proof -
  let ?es = "hm_values (svc_endpoints s)"
  have len: "length ?es = length (svc_endpoints s)" by (simp add: hm_values_def)
  let ?i = "unat index mod length (svc_endpoints s)"
  have "get_endpoint_for sm port index = Done None \<longleftrightarrow>
      (\<forall>e. e \<in> set (drop ?i ?es) \<or> e \<in> set (take (length ?es - ?i) ?es) \<longrightarrow> \<not> is_available e)"
    by (auto simp: get_endpoint_for_unfold [OF assms] Let_def len first_available_None
        split: option.splits dest!: first_available_SomeD)
  then show ?thesis
    unfolding in_set_drop_take by (auto simp: len)
qed

lemma get_endpoint_for_Some:
  assumes "hm_get (port_service_map sm) port = Some s" and "svc_endpoints s \<noteq> []"
    and "get_endpoint_for sm port index = Done (Some r)"
  shows "\<exists>e \<in> set (hm_values (svc_endpoints s)). is_available e \<and> r = (ep_address e, ep_protocol e)"
  using assms(3) unfolding get_endpoint_for_unfold [OF assms(1,2)] Let_def
  by (auto split: option.splits dest!: first_available_SomeD dest: in_set_dropD in_set_takeD)

lemma get_endpoint_for_balanced:
  assumes "hm_get (port_service_map sm) port = Some s" and "svc_endpoints s \<noteq> []"
    and "list_all is_available (hm_values (svc_endpoints s))"
  shows "get_endpoint_for sm port index =
     (let e = hm_values (svc_endpoints s) ! (unat index mod length (svc_endpoints s))
      in Done (Some (ep_address e, ep_protocol e)))"
proof -
  let ?es = "hm_values (svc_endpoints s)"
  let ?i = "unat index mod length ?es"
  have len: "length ?es = length (svc_endpoints s)" by (simp add: hm_values_def)
  have i: "?i < length ?es" using assms(2) by (simp add: len)
  have "is_available (hd (drop ?i ?es))"
    using assms(3) i by (simp add: hd_drop_conv_nth list_all_length)
  then have "first_available (drop ?i ?es) = Some (ep_address (?es ! ?i), ep_protocol (?es ! ?i))"
    using first_available_hd [of "drop ?i ?es"] i by (simp add: hd_drop_conv_nth)
  then show ?thesis
    by (simp add: get_endpoint_for_unfold [OF assms(1,2)] Let_def len)
qed

section \<open>The listener task\<close>

lemma process_event_frame:
  assumes "process_event send sm from ev = (sm', r)"
  shows "endpoint_discovery_metrics sm' = endpoint_discovery_metrics sm"
    and "registered_endpoint_discovery_names sm' = registered_endpoint_discovery_names sm"
  using assms
  by (cases ev; auto simp: process_add_def process_delete_eq event_defs
      split: option.splits outcome.splits prod.splits)+

lemma measured_frame [simp]:
  "port_service_map (measured f from sm) = port_service_map sm"
  "port_event_sender (measured f from sm) = port_event_sender sm"
  "registered_endpoint_discovery_names (measured f from sm) = registered_endpoint_discovery_names sm"
  by (simp_all add: measured_def split: option.split)

lemma hm_get_measured:
  "hm_get (endpoint_discovery_metrics (measured f from sm)) name =
     (if name = from then map_option f (hm_get (endpoint_discovery_metrics sm) name)
      else hm_get (endpoint_discovery_metrics sm) name)"
  by (auto simp: measured_def rust_simps split: option.split)

lemma measured_wf: "sm_wf sm \<Longrightarrow> sm_wf (measured f from sm)"
  by (auto simp: sm_wf_def names_wf_def measured_def rust_simps hm_get_None_iff
      intro: wf_intros split: option.split)
     (auto dest!: hm_get_SomeD intro: rev_image_eqI)

lemma measured_inv: "sm_inv sm \<Longrightarrow> sm_inv (measured f from sm)"
  by (simp add: sm_inv_def measured_wf)

text \<open>When the manager lives and no port event is refused, the listener processes every event of its
  channel in order; when the channel closes it panics, with the invariant intact.\<close>

lemma listen_processes_all:
  assumes "\<And>c e. send c e \<noteq> None" and "sm_inv sm"
    and "hm_get (endpoint_discovery_metrics sm) from = Some m"
  shows "\<exists>sm'. listen_for_discovery_events send meter from sm (map (\<lambda>e. (e, True)) es) =
       (sm', listen_closed from) \<and>
     sm_inv sm' \<and>
     directory_of (port_service_map sm') = fold (dir_step from) es (directory_of (port_service_map sm)) \<and>
     hm_get (endpoint_discovery_metrics sm') from = Some ((meter True ^^ length es) m)"
  using assms(2,3)
proof (induction es arbitrary: sm m)
  case Nil
  then show ?case by simp
next
  case (Cons e es)
  obtain sm1 w where e: "process_event send sm from e = (sm1, Done w)"
    using process_event_not_refused sm_wf_hm_wf sm_inv_wf assms(1) Cons.prems(1) by metis
  let ?sm2 = "measured (meter True) from sm1"
  have "sm_inv ?sm2"
    using process_event_inv [OF Cons.prems(1) e] by (rule measured_inv)
  moreover have "hm_get (endpoint_discovery_metrics ?sm2) from = Some (meter True m)"
    using Cons.prems(2) process_event_frame(1) [OF e] by (simp add: hm_get_measured)
  moreover have "directory_of (port_service_map ?sm2) = dir_step from e (directory_of (port_service_map sm))"
    using process_event_directory [OF sm_inv_wf [OF Cons.prems(1)] e] by simp
  ultimately show ?case
    using Cons.IH [of ?sm2 "meter True m"] by (simp add: e listen_event_def funpow_swap1)
qed

text \<open>With a hit count that counts, the listener's metrics have the number of events.\<close>

lemma events_are_counted:
  "events_processed ((measure_event throughput (\<lambda>_. Suc) True ^^ n) m) = events_processed m + n"
  by (induction n) (simp_all add: measure_event_def Let_def)

section \<open>Properties of the service manager\<close>

named_theorems sm_eval \<open>definitions that evaluate the manager on concrete states\<close>

lemmas manager_defs [sm_eval] =
  service_manager_new_def process_add_def process_delete_def process_suspend_def
  process_resume_def send_event_def service_new_def endpoint_id_new_def endpoint_new_def
  hm_get_def hm_insert_def hm_remove_def hm_values_def hm_values_mut_def has_endpoint_def
  try_event_def take_channel_def open_channel_def get_endpoint_for_def
  suspend_endpoint_def resume_endpoint_def register_endpoint_discovery_def hs_insert_def
  send_port_events_to_def Let_def

lemmas invariant_defs [sm_eval] =
  sm_inv_def sm_wf_def psm_wf_def psm_populated_def names_wf_def service_wf_def

definition example_addr :: "u8 \<Rightarrow> socket_addr" where
  "example_addr n = SocketAddr (V4 10 0 0 n) 80"

definition example_manager :: "(nat, port_event list) service_manager" where
  "example_manager =
     \<lparr>registered_endpoint_discovery_names = [''test''],
      port_service_map =
        [(80, service_new 80 ''http''
            [(endpoint_id_new ''test'' ''0'', endpoint_new False (example_addr 1) ''http''),
             (endpoint_id_new ''test'' ''1'', endpoint_new True (example_addr 2) ''http''),
             (endpoint_id_new ''test'' ''2'', endpoint_new False (example_addr 3) ''http'')])],
      port_event_sender = Some [Open 80 ''http''],
      endpoint_discovery_metrics = [(''test'', 0)]\<rparr>"

lemma example_manager_inv: "sm_inv example_manager"
  by (simp add: sm_eval example_manager_def)

lemma reachable_run:
  "sm_reachable send delivered ends sm \<Longrightarrow> Returned \<in> ends \<Longrightarrow> run_all (try_event send) sm es = Some sm' \<Longrightarrow>
     sm_reachable send delivered ends sm'"
proof (induction es arbitrary: sm)
  case (Cons fe es)
  then obtain sm1 w where "process_event send sm (fst fe) (snd fe) = (sm1, Done w)"
      and rest: "run_all (try_event send) sm1 es = Some sm'"
    by (auto simp: try_event_Some split: option.splits)
  then have "sm_reachable send delivered ends sm1"
    using Cons.prems(1,2) by (blast intro: sm_reachable.step sm_step.event)
  with Cons.IH Cons.prems(2) rest show ?case by blast
qed simp

text \<open>A manager with one registered task and a listener of port events.\<close>

definition example_listening :: "(nat, port_event list) service_manager" where
  "example_listening =
     service_manager_new\<lparr>registered_endpoint_discovery_names := [''test''],
       port_event_sender := Some [], endpoint_discovery_metrics := [(''test'', 0)]\<rparr>"

lemma example_listening_reachable: "sm_reachable send (\<lambda>c. c) {Returned} example_listening"
proof -
  let ?new = "service_manager_new :: (nat, port_event list) service_manager"
  let ?reg = "?new\<lparr>registered_endpoint_discovery_names := [''test''], endpoint_discovery_metrics := [(''test'', 0)]\<rparr>"
  have "register_endpoint_discovery 0 ?new ''test'' = Inr ?reg"
    by (simp add: sm_eval)
  then have "sm_reachable send (\<lambda>c. c) {Returned} ?reg"
    by (blast intro: sm_reachable.step sm_reachable.start sm_step.register)
  from sm_reachable.step [OF this sm_step.listener [of "\<lambda>c. c" "[]" send ?reg]]
  show ?thesis
    by (simp add: sm_eval example_listening_def)
qed

lemma example_manager_reachable: "sm_reachable open_channel (\<lambda>c. c) {Returned} example_manager"
proof (rule reachable_run [OF example_listening_reachable])
  show "run_all (try_event open_channel) example_listening
      [(''test'', Add ''0'' False 80 ''http'' (example_addr 1) ''http''),
       (''test'', Add ''1'' True 80 ''http'' (example_addr 2) ''http''),
       (''test'', Add ''2'' False 80 ''http'' (example_addr 3) ''http'')] = Some example_manager"
    by (simp add: sm_eval example_listening_def example_manager_def)
qed simp

text \<open>C1: Refinement. Whatever sequence of endpoint events the discovery tasks send, as long as
  no port event is refused, the manager keeps its invariant (unique keys, a service under its
  own port, no service without endpoints, metrics for exactly the registered tasks) and its port
  map represents the abstract directory obtained by folding the abstract effect of each event.\<close>

theorem manager_refines_directory:
  assumes "sm_inv sm" and "run_all (try_event send) sm es = Some sm'"
  shows "sm_inv sm' \<and> directory_of (port_service_map sm') =
     fold (\<lambda>fe. dir_step (fst fe) (snd fe)) es (directory_of (port_service_map sm))"
  using sm_sim.run_inv [OF assms] sm_sim.run_abs [OF assms] by blast

theorem manager_refines_directory_witness:
  "\<exists>sm'. run_all (try_event open_channel) example_manager
      [(''test'', Delete ''0''), (''test'', Resume ''2''),
       (''k8s'', Add ''p'' True 443 ''https'' (example_addr 9) ''http'')] = Some sm' \<and>
    sm_inv sm' \<and> directory_of (port_service_map sm') =
      fold (\<lambda>fe. dir_step (fst fe) (snd fe))
        [(''test'', Delete ''0''), (''test'', Resume ''2''),
         (''k8s'', Add ''p'' True 443 ''https'' (example_addr 9) ''http'')]
        (directory_of (port_service_map example_manager))"
proof -
  let ?es = "[(''test'', Delete ''0''), (''test'', Resume ''2''),
       (''k8s'', Add ''p'' True 443 ''https'' (example_addr 9) ''http'')]"
  have "\<exists>sm'. run_all (try_event open_channel) example_manager ?es = Some sm'"
    by (simp add: sm_eval example_manager_def)
  then show ?thesis
    using manager_refines_directory [OF example_manager_inv, of open_channel ?es] by blast
qed

text \<open>C2: Safety. Whoever listens for port events sees a sequence that opens only closed
  ports and closes only open ones, and that at every moment leaves open exactly the ports the
  manager serves, with their protocols. This holds in every state reached without a panic, by
  any interleaving of events of all tasks, registrations, late listeners and reorderings.\<close>

theorem port_events_track_services:
  assumes "channel_contract send delivered"
    and "sm_reachable send delivered {Returned} sm" and "port_event_sender sm = Some c"
  shows "replay (delivered c) = Some (open_ports_of (port_service_map sm))"
  using sm_reachable_in_sync [OF assms(1,2)] assms(3) by (simp add: in_sync_def)

text \<open>A concrete run: a service on port 80, a listener that comes later, a service on port 443,
  and the removal of the first one.\<close>

definition example_run :: "(nat, port_event list) service_manager" where
  "example_run =
     \<lparr>registered_endpoint_discovery_names = [],
      port_service_map =
        [(443, service_new 443 ''ssh''
            [(endpoint_id_new ''test'' ''1'', endpoint_new True (example_addr 2) ''ssh'')])],
      port_event_sender = Some [Open 80 ''http'', Open 443 ''ssh'', Close 80],
      endpoint_discovery_metrics = []\<rparr>"

lemma example_run_reachable: "sm_reachable open_channel (\<lambda>c. c) {Returned} example_run"
proof -
  let ?R = "sm_reachable open_channel (\<lambda>c. c) {Returned}"
  let ?add0 = "Add ''0'' True 80 ''http'' (example_addr 1) ''http''"
  let ?add1 = "Add ''1'' True 443 ''ssh'' (example_addr 2) ''ssh''"
  let ?new = "service_manager_new :: (nat, port_event list) service_manager"
  define sm1 where "sm1 = fst (process_event open_channel ?new ''test'' ?add0)"
  define sm2 where "sm2 = send_port_events_to open_channel sm1 []"
  define sm3 where "sm3 = fst (process_event open_channel sm2 ''test'' ?add1)"
  have ev: "sm_step open_channel (\<lambda>c. c) sm Returned (fst (process_event open_channel sm n e))"
    if "is_done (snd (process_event open_channel sm n e))"
    for sm :: "(nat, port_event list) service_manager" and n e
    using that by (cases "process_event open_channel sm n e")
      (auto simp: is_done_iff intro: sm_step.event)
  have "?R sm1"
    unfolding sm1_def by (rule sm_reachable.step [OF sm_reachable.start ev]) (simp_all add: sm_eval)
  then have "?R sm2"
    unfolding sm2_def by (rule sm_reachable.step [OF _ sm_step.listener]) simp_all
  then have "?R sm3"
    unfolding sm3_def by (rule sm_reachable.step [OF _ ev])
      (simp_all add: sm_eval sm2_def sm1_def)
  then have "?R (fst (process_event open_channel sm3 ''test'' (Delete ''0'')))"
    by (rule sm_reachable.step [OF _ ev]) (simp_all add: sm_eval sm3_def sm2_def sm1_def)
  moreover have "fst (process_event open_channel sm3 ''test'' (Delete ''0'')) = example_run"
    by (simp add: sm_eval sm3_def sm2_def sm1_def example_run_def)
  ultimately show ?thesis by simp
qed

lemma open_channel_contract: "channel_contract open_channel (\<lambda>c. c)"
  by (simp add: channel_contract_def open_channel_def)

theorem port_events_track_services_witness:
  "replay [Open 80 ''http'', Open 443 ''ssh'', Close 80] =
     Some (open_ports_of (port_service_map example_run))"
  using port_events_track_services [OF open_channel_contract example_run_reachable]
  by (simp add: example_run_def)

lemma selection_done:
  assumes "sm_inv sm"
  shows "is_done (get_endpoint_for sm port index)"
proof (cases "hm_get (port_service_map sm) port")
  case None
  then show ?thesis by (simp add: get_endpoint_for_def)
next
  case (Some s)
  then have "svc_endpoints s \<noteq> []"
    using assms psm_populated_get by (auto simp: sm_inv_def)
  with Some show ?thesis
    by (simp add: get_endpoint_for_unfold Let_def split: option.split)
qed

text \<open>C7: Safety. In every state reached without a panic, selecting an endpoint returns: the
  remainder by the number of endpoints of a served port is never a remainder by zero.\<close>

theorem selection_never_panics:
  assumes "sm_reachable send delivered {Returned} sm"
  shows "is_done (get_endpoint_for sm port index)"
  by (rule selection_done [OF sm_reachable_inv [OF assms]])

theorem selection_never_panics_witness:
  "is_done (get_endpoint_for example_run 443 7) \<and>
   get_endpoint_for example_run 443 7 = Done (Some (example_addr 2, ''ssh''))"
  using selection_never_panics [OF example_run_reachable, of 443 7]
  by (simp add: sm_eval example_run_def)

text \<open>C8: Functional behaviour of the selection. A returned address and protocol belong to an
  available endpoint of the port's service, and an address is returned exactly when one of the
  positions the two loops visit (from the start position to the end, and as many from the
  beginning as are left after the start position) holds an available endpoint.\<close>

theorem selection_exact:
  assumes "sm_inv sm" and "hm_get (port_service_map sm) port = Some s"
  shows "(get_endpoint_for sm port index = Done (Some r) \<longrightarrow>
            (\<exists>i e. hm_get (svc_endpoints s) i = Some e \<and> is_available e \<and>
                   r = (ep_address e, ep_protocol e))) \<and>
         ((\<exists>r. get_endpoint_for sm port index = Done (Some r)) \<longleftrightarrow>
            (\<exists>j. visited (length (svc_endpoints s)) (unat index mod length (svc_endpoints s)) j \<and>
                 is_available (hm_values (svc_endpoints s) ! j)))"
proof -
  have ne: "svc_endpoints s \<noteq> []" and wf: "hm_wf (svc_endpoints s)"
    using assms psm_populated_get psm_wf_get(2) by (auto simp: sm_inv_def sm_wf_def)
  have "\<exists>x. get_endpoint_for sm port index = Done x"
    by (simp add: get_endpoint_for_unfold [OF assms(2) ne] Let_def split: option.split)
  then have "(\<exists>r. get_endpoint_for sm port index = Done (Some r)) \<longleftrightarrow>
      get_endpoint_for sm port index \<noteq> Done None"
    by auto
  moreover have "\<exists>i. hm_get (svc_endpoints s) i = Some e" if "e \<in> set (hm_values (svc_endpoints s))" for e
    using that wf by (auto simp: hm_values_def hm_get_in_set)
  ultimately show ?thesis
    using get_endpoint_for_None [OF assms(2) ne] get_endpoint_for_Some [OF assms(2) ne] by blast
qed

theorem selection_exact_witness:
  "\<exists>r. get_endpoint_for example_manager 80 1 = Done (Some r)"
proof -
  let ?s = "snd (hd (port_service_map example_manager))"
  have s: "hm_get (port_service_map example_manager) 80 = Some ?s"
    by (simp add: example_manager_def sm_eval)
  have "visited (length (svc_endpoints ?s)) (unat (1 :: usize) mod length (svc_endpoints ?s)) 1 \<and>
      is_available (hm_values (svc_endpoints ?s) ! 1)"
    by (simp add: example_manager_def sm_eval visited_def)
  then show ?thesis
    using selection_exact [OF example_manager_inv s, of 1] by blast
qed

text \<open>C26: The selection is incomplete. In a state that the manager reaches from its start without any
  error, it can serve a port with an available endpoint and still report that there is none: with
  three endpoints and start position 2, the second loop takes one endpoint from the beginning and
  never looks at position 1.\<close>

theorem selection_misses_an_endpoint:
  "\<exists>(sm :: (nat, port_event list) service_manager) port index s e.
     sm_reachable open_channel (\<lambda>c. c) {Returned} sm \<and> hm_get (port_service_map sm) port = Some s \<and>
     e \<in> set (hm_values (svc_endpoints s)) \<and> is_available e \<and>
     get_endpoint_for sm port index = Done None"
proof (intro exI conjI)
  show "sm_reachable open_channel (\<lambda>c. c) {Returned} example_manager" by (rule example_manager_reachable)
  show "hm_get (port_service_map example_manager) 80 = Some (snd (hd (port_service_map example_manager)))"
    by (simp add: example_manager_def sm_eval)
  show "hm_values (svc_endpoints (snd (hd (port_service_map example_manager)))) ! 1
      \<in> set (hm_values (svc_endpoints (snd (hd (port_service_map example_manager)))))"
    by (simp add: example_manager_def sm_eval)
  show "is_available (hm_values (svc_endpoints (snd (hd (port_service_map example_manager)))) ! 1)"
    by (simp add: example_manager_def sm_eval)
  show "get_endpoint_for example_manager 80 2 = Done None"
    by (simp add: example_manager_def sm_eval)
qed

text \<open>Completeness in the first half. When the start position is at most half the number of
  endpoints, an available endpoint is always found.\<close>

lemma selection_complete_in_first_half:
  assumes "sm_inv sm" and "hm_get (port_service_map sm) port = Some s"
    and "2 * (unat index mod length (svc_endpoints s)) \<le> length (svc_endpoints s)"
    and "hm_get (svc_endpoints s) i = Some e" and "is_available e"
  shows "\<exists>r. get_endpoint_for sm port index = Done (Some r)"
proof -
  have ne: "svc_endpoints s \<noteq> []"
    using assms(1,2) psm_populated_get by (auto simp: sm_inv_def)
  have "e \<in> set (hm_values (svc_endpoints s))"
    using hm_get_SomeD [OF assms(4)] by (force simp: hm_values_def)
  then obtain j where "j < length (svc_endpoints s)" "hm_values (svc_endpoints s) ! j = e"
    by (auto simp: in_set_conv_nth hm_values_def)
  then have "get_endpoint_for sm port index \<noteq> Done None"
    using get_endpoint_for_None [OF assms(2) ne] visited_all [OF assms(3)] assms(5) by blast
  then show ?thesis
    by (auto simp: get_endpoint_for_unfold [OF assms(2) ne] Let_def split: option.splits)
qed

lemma map_nth_rotate:
  "xs \<noteq> [] \<Longrightarrow> map (\<lambda>k. xs ! ((i + k) mod length xs)) [0..<length xs] = rotate i xs"
  by (intro nth_equalityI) (auto simp: nth_rotate)

lemma mset_rotate: "mset (rotate i xs) = mset xs"
  by (metis append_take_drop_id mset_append rotate_drop_take union_commute)

lemma balanced_selection:
  assumes "sm_inv sm" and "hm_get (port_service_map sm) port = Some s"
    and "list_all is_available (hm_values (svc_endpoints s))"
    and "unat index + length (svc_endpoints s) < 2 ^ 64"
  shows "mset (map (\<lambda>k. get_endpoint_for sm port (index + of_nat k)) [0..<length (svc_endpoints s)]) =
     mset (map (\<lambda>e. Done (Some (ep_address e, ep_protocol e))) (hm_values (svc_endpoints s)))"
proof -
  let ?es = "hm_values (svc_endpoints s)"
  let ?f = "\<lambda>e. Done (Some (ep_address e, ep_protocol e))"
  have ne: "svc_endpoints s \<noteq> []" "?es \<noteq> []"
    using assms(1,2) psm_populated_get by (auto simp: sm_inv_def hm_values_def)
  have len: "length ?es = length (svc_endpoints s)" by (simp add: hm_values_def)
  have "unat (index + of_nat k) = unat index + k" if "k < length ?es" for k
    using that assms(4) len by (simp add: unat_word_ariths unat_of_nat)
  then have "map (\<lambda>k. get_endpoint_for sm port (index + of_nat k)) [0..<length ?es] =
      map (\<lambda>k. ?f (?es ! ((unat index + k) mod length ?es))) [0..<length ?es]"
    using get_endpoint_for_balanced [OF assms(2) ne(1) assms(3)] by (simp add: Let_def len)
  also have "\<dots> = map ?f (rotate (unat index) ?es)"
    by (simp add: map_nth_rotate [OF ne(2), symmetric] comp_def)
  finally show ?thesis
    by (simp add: len mset_rotate)
qed

text \<open>Balance. While every endpoint of a service is available, as many consecutive indices
  as there are endpoints select every endpoint exactly once (the indices do not wrap around).\<close>

lemma selection_balances:
  assumes "sm_inv sm" and "hm_get (port_service_map sm) port = Some s"
    and "list_all is_available (hm_values (svc_endpoints s))"
    and "unat index + length (svc_endpoints s) < 2 ^ 64"
  shows "mset (map (\<lambda>k. get_endpoint_for sm port (index + of_nat k)) [0..<length (svc_endpoints s)]) =
     mset (map (\<lambda>e. Done (Some (ep_address e, ep_protocol e))) (hm_values (svc_endpoints s)))"
  by (rule balanced_selection [OF assms])

definition example_full :: "(nat, port_event list) service_manager" where
  "example_full = example_manager\<lparr>port_service_map :=
     [(80, service_new 80 ''http''
         [(endpoint_id_new ''test'' ''0'', endpoint_new True (example_addr 1) ''http''),
          (endpoint_id_new ''test'' ''1'', endpoint_new True (example_addr 2) ''ssh'')])]\<rparr>"

lemma process_event_panic_cause:
  assumes "sm_wf sm" and "process_event send sm from ev = (sm', Panic q)"
  shows "q = ''TODO: can't send port event'' \<and>
    (\<exists>c e. port_event_sender sm' = Some c \<and> send c e = None)"
proof (cases ev)
  case (Add uid avail xport xproto baddr bproto)
  then show ?thesis
    using assms(2)
    by (auto simp: process_add_def send_event_def Let_def split: option.splits)
next
  case (Delete uid)
  with assms(2) have "process_delete send sm from uid = (sm', Panic q)" by simp
  with sm_wf_hm_wf [OF assms(1)] show ?thesis
  proof (rule process_delete_cases)
    fix c' p pre psm
    assume "accept send c' (Close p) = None" "Panic q = (Panic ''TODO: can't send port event'' :: warning option outcome)"
      "sm' = sm\<lparr>port_service_map := psm, port_event_sender := c'\<rparr>"
    then show ?thesis by (cases c') auto
  qed simp
next
  case (Suspend uid)
  then show ?thesis using assms(2) by (simp add: event_defs)
next
  case (Resume uid)
  then show ?thesis using assms(2) by (simp add: event_defs)
qed

text \<open>C28: Errors. Processing an event panics only when the port event channel refuses a message;
  the unwrapped removal of an emptied service never fails. The state left behind by the panic
  still has unique keys, services under their own ports and matching metrics.\<close>

theorem event_panics_only_on_refusal:
  assumes "sm_wf sm" and "process_event send sm from ev = (sm', Panic q)"
  shows "q = ''TODO: can't send port event'' \<and>
    (\<exists>c e. port_event_sender sm' = Some c \<and> send c e = None) \<and> sm_wf sm'"
  using process_event_panic_cause [OF assms] process_event_wf [OF assms] by blast

text \<open>A manager that serves one pod on two ports, and a listener that is gone.\<close>

definition example_two_ports :: "(nat, port_event list) service_manager" where
  "example_two_ports = example_manager\<lparr>port_service_map :=
     [(80, service_new 80 ''http''
         [(endpoint_id_new ''test'' ''0'', endpoint_new True (example_addr 1) ''http'')]),
      (443, service_new 443 ''https''
         [(endpoint_id_new ''test'' ''0'', endpoint_new True (example_addr 1) ''http'')])],
     port_event_sender := Some [Open 80 ''http'', Open 443 ''https'']\<rparr>"

definition example_half_closed :: "(nat, port_event list) service_manager" where
  "example_half_closed = example_two_ports\<lparr>port_service_map := [(443, service_new 443 ''https'' [])]\<rparr>"

lemma example_two_ports_inv: "sm_inv example_two_ports"
  by (simp add: sm_eval example_two_ports_def example_manager_def)

lemma example_two_ports_reachable: "sm_reachable (take_channel 2) (\<lambda>c. c) {Returned} example_two_ports"
proof (rule reachable_run [OF example_listening_reachable])
  show "run_all (try_event (take_channel 2)) example_listening
      [(''test'', Add ''0'' True 80 ''http'' (example_addr 1) ''http''),
       (''test'', Add ''0'' True 443 ''https'' (example_addr 1) ''http'')] = Some example_two_ports"
    by (simp add: sm_eval example_listening_def example_two_ports_def example_manager_def)
qed simp

lemma example_delete_panics:
  "process_event (take_channel 2) example_two_ports ''test'' (Delete ''0'') =
     (example_half_closed, Panic ''TODO: can't send port event'')"
  by (simp add: sm_eval example_two_ports_def example_manager_def example_half_closed_def)

theorem event_panics_only_on_refusal_witness:
  "(\<exists>c e. port_event_sender example_half_closed = Some c \<and> take_channel 2 c e = None) \<and>
   sm_wf example_half_closed"
  using event_panics_only_on_refusal [OF sm_inv_wf [OF example_two_ports_inv] example_delete_panics]
  by blast

text \<open>C29: A panic in the middle of a deletion leaves a served port without endpoints. From a
  state reached without an error, a deletion whose first \<^verbatim>\<open>Close\<close> is refused leaves such a port behind, and the next
  selection on it divides by zero.\<close>

theorem refused_close_breaks_selection:
  "\<exists>(sm :: (nat, port_event list) service_manager) send from uid sm' q port.
     sm_reachable send (\<lambda>c. c) {Returned} sm \<and> process_event send sm from (Delete uid) = (sm', Panic q) \<and>
     get_endpoint_for sm' port 0 =
       Panic ''attempt to calculate the remainder with a divisor of zero''"
proof -
  have "get_endpoint_for example_half_closed 443 0 =
      Panic ''attempt to calculate the remainder with a divisor of zero''"
    by (simp add: sm_eval example_half_closed_def)
  then show ?thesis
    using example_two_ports_reachable example_delete_panics by blast
qed

text \<open>C22: Recovery. Whatever panics happened before, a deletion that completes, of any endpoint by any task,
  removes every service that a panic left without endpoints and so restores the full invariant; the
  port map is the directory without the endpoint and without empty services, and selecting an endpoint
  no longer panics on any port.\<close>

theorem completed_deletion_recovers:
  assumes "sm_reachable send delivered ends sm"
    and "process_event send sm from (Delete uid) = (sm', Done w)"
  shows "sm_inv sm' \<and>
    directory_of (port_service_map sm') = dir_delete (endpoint_id_new from uid) (directory_of (port_service_map sm)) \<and>
    is_done (get_endpoint_for sm' port index)"
proof -
  have wf: "sm_wf sm" using sm_reachable_wf [OF assms(1)] .
  from assms(2) have "process_delete send sm from uid = (sm', Done w)" by simp
  with sm_wf_hm_wf [OF wf] have "psm_populated (port_service_map sm')"
    by (rule process_delete_cases) (use wf in \<open>auto simp: without_endpoint_populated sm_wf_def\<close>)
  then have "sm_inv sm'"
    using process_event_wf [OF wf assms(2)] by (simp add: sm_inv_def)
  then show ?thesis
    using selection_done process_event_directory [OF wf assms(2)] by simp
qed

text \<open>After the panic of \<open>example_delete_panics\<close> a new listener is announced the empty service, and the next deletion
  closes its port.\<close>

theorem completed_deletion_recovers_witness:
  "get_endpoint_for example_half_closed 443 0 = Panic ''attempt to calculate the remainder with a divisor of zero'' \<and>
   (\<exists>sm' w. process_event (take_channel 2) (send_port_events_to (take_channel 2) example_half_closed []) ''k8s'' (Delete ''9'') =
      (sm', Done w) \<and> sm_inv sm' \<and> is_done (get_endpoint_for sm' 443 0))"
proof -
  let ?R = "sm_reachable (take_channel 2) (\<lambda>c. c) {Returned, Panicked}"
  let ?sm = "send_port_events_to (take_channel 2) example_half_closed []"
  have "?R example_listening" by (rule sm_reachable_mono [OF example_listening_reachable]) simp
  then have "?R example_two_ports"
    by (rule reachable_run [of _ _ _ _ "[(''test'', Add ''0'' True 80 ''http'' (example_addr 1) ''http''),
          (''test'', Add ''0'' True 443 ''https'' (example_addr 1) ''http'')]"])
       (simp_all add: sm_eval example_listening_def example_two_ports_def example_manager_def)
  then have "?R example_half_closed"
    using example_delete_panics by (blast intro: sm_reachable.step sm_step.event_panic)
  then have R: "?R ?sm" by (rule sm_reachable.step [OF _ sm_step.listener]) simp_all
  obtain sm' w where e: "process_event (take_channel 2) ?sm ''k8s'' (Delete ''9'') = (sm', Done w)"
    by (simp add: sm_eval example_half_closed_def example_two_ports_def)
  show ?thesis
    using completed_deletion_recovers [OF R e, of 443 0] e by (simp add: sm_eval example_half_closed_def)
qed

text \<open>C25: Isolation. Events of one discovery task never add, change, suspend or remove an
  endpoint of another task, on any port, even if both use the same uid.\<close>

theorem tasks_are_isolated:
  assumes "sm_inv sm" and "run_all (try_event send) sm (map (Pair from) es) = Some sm'"
    and "endpoint_discovery_name i \<noteq> from"
  shows "endpoint_at (directory_of (port_service_map sm')) p i =
     endpoint_at (directory_of (port_service_map sm)) p i"
proof -
  have "endpoint_at (fold (\<lambda>fe. dir_step (fst fe) (snd fe)) (map (Pair from) es) d) p i =
      endpoint_at d p i" for d
    by (induction es arbitrary: d) (simp_all add: endpoint_at_other_task [OF assms(3)])
  then show ?thesis
    using sm_sim.run_abs [OF assms(1,2)] by simp
qed

theorem tasks_are_isolated_witness:
  "endpoint_at (directory_of (port_service_map
      (the (run_all (try_event open_channel) example_manager
        (map (Pair ''k8s'') [Add ''1'' True 80 ''http'' (example_addr 9) ''http'', Delete ''1'']))))) 80
      (endpoint_id_new ''test'' ''1'') = Some (endpoint_new True (example_addr 2) ''http'')"
proof -
  let ?es = "[Add ''1'' True 80 ''http'' (example_addr 9) ''http'', Delete ''1'']"
  obtain sm' where sm': "run_all (try_event open_channel) example_manager (map (Pair ''k8s'') ?es) = Some sm'"
    by (simp add: sm_eval example_manager_def)
  have i: "endpoint_discovery_name (endpoint_id_new ''test'' ''1'') \<noteq> ''k8s''"
    by (simp add: endpoint_id_new_def)
  show ?thesis
    unfolding sm' option.sel tasks_are_isolated [OF example_manager_inv sm' i]
    by (simp add: endpoint_at_def directory_of_def sm_eval example_manager_def)
qed

lemma dir_delete_add:
  assumes "\<And>p. endpoint_at d p i = None" and "\<And>p proto. d p \<noteq> Some (proto, Map.empty)"
  shows "dir_delete i (dir_add i e port proto d) = d"
proof
  fix p
  have nd: "eps(i := None) = eps" "eps \<noteq> Map.empty" if "d p = Some (pr, eps)" for pr eps p
    using that assms(1) [of p] assms(2) [of p pr] by (auto simp: endpoint_at_def fun_eq_iff)
  show "dir_delete i (dir_add i e port proto d) p = d p"
  proof (cases "d p")
    case None
    then show ?thesis by (cases "p = port") (auto simp: dir_delete_def dir_add_def)
  next
    case (Some x)
    then obtain pr eps where "d p = Some (pr, eps)" by (cases x) auto
    then show ?thesis
      using nd [of p pr eps] by (cases "p = port") (simp_all add: dir_delete_def dir_add_def)
  qed
qed

text \<open>Round trip. Adding an endpoint that no service has yet and deleting it again restores
  the directory: a service created for it disappears, an existing one keeps its protocol and its
  other endpoints.\<close>

lemma add_then_delete:
  assumes "sm_inv sm"
    and "\<And>p. endpoint_at (directory_of (port_service_map sm)) p (endpoint_id_new from uid) = None"
    and "process_event send sm from (Add uid avail xport xproto baddr bproto) = (sm1, Done w1)"
    and "process_event send sm1 from (Delete uid) = (sm2, Done w2)"
  shows "directory_of (port_service_map sm2) = directory_of (port_service_map sm)"
proof -
  have "directory_of (port_service_map sm) p \<noteq> Some (proto, Map.empty)" for p proto
    using assms(1) psm_populated_get [of "port_service_map sm" p]
    by (auto simp: directory_of_def sm_inv_def hm_get_empty_iff)
  from dir_delete_add [OF assms(2) this] show ?thesis
    using process_event_directory [OF sm_inv_wf [OF assms(1)] assms(3)]
      process_event_directory [OF sm_inv_wf [OF process_event_inv [OF assms(1,3)]] assms(4)]
    by simp
qed

text \<open>Registration. A registration of a discovery task succeeds only for a name that is not
  registered yet; it records the name with its metrics, keeps the invariant, the services, the
  listener and every earlier registration, and the same name is refused from then on.\<close>

lemma registration_of_tasks:
  assumes "sm_inv sm" and "register_endpoint_discovery m sm name = Inr sm'"
  shows "name \<notin> set (registered_endpoint_discovery_names sm) \<and> sm_inv sm' \<and>
    set (registered_endpoint_discovery_names sm') =
      insert name (set (registered_endpoint_discovery_names sm)) \<and>
    hm_get (endpoint_discovery_metrics sm') = (hm_get (endpoint_discovery_metrics sm))(name \<mapsto> m) \<and>
    port_service_map sm' = port_service_map sm \<and> port_event_sender sm' = port_event_sender sm \<and>
    register_endpoint_discovery m' sm' name = Inl (AlreadyRegistered name)"
proof -
  have names: "names_wf sm" "names_wf sm'"
    using assms(1) register_inv(2) [OF assms(2) assms(1)] by (simp_all add: sm_inv_def sm_wf_def)
  have lookup: "hm_get (endpoint_discovery_metrics sm') = (hm_get (endpoint_discovery_metrics sm))(name \<mapsto> m)"
    using sm_reg.accepted(2) [OF names(1), of "(name, m)" sm'] assms(2) by simp
  have sets: "name \<notin> set (registered_endpoint_discovery_names sm)"
      "set (registered_endpoint_discovery_names sm') =
        insert name (set (registered_endpoint_discovery_names sm))"
    using assms(2) by (auto simp: register_endpoint_discovery_def rust_simps split: if_splits)
  then have "register_endpoint_discovery m' sm' name = Inl (AlreadyRegistered name)"
    by (simp add: register_endpoint_discovery_def)
  then show ?thesis
    using sets lookup register_frame [OF assms(2)] register_inv(2) [OF assms(2) assms(1)] by simp
qed

end
