(* ===== verification/Kubernetes.thy ===== *)
theory Kubernetes
  imports Endpoint
begin

text \<open>
  \<^verbatim>\<open>src/src/kubernetes/mod.rs\<close>: the discovery task for Kubernetes. The pods and watch events of
  the \<^verbatim>\<open>kube\<close> and \<^verbatim>\<open>k8s_openapi\<close> crates are records with the fields the code reads. The channel to
  the service manager is an argument \<open>send\<close>, as in \<open>Service_Manager\<close>; the cluster
  configuration, the client and the watch stream are arguments of \<open>discovery_new\<close> and
  \<open>discovery_run\<close>. Tuple transposition (\<^verbatim>\<open>tuple_transpose\<close>) gives \<^verbatim>\<open>Some\<close> tuple exactly when
  every component is \<^verbatim>\<open>Some\<close>, which the model writes as one pattern match.

  The reference definition of what the handlers do, and the proofs about them, are in
  \<open>Kubernetes_Plan\<close> and \<open>Kubernetes_Properties\<close>.
\<close>

section \<open>Data\<close>

definition FORMAT_VERSION_LABEL :: string where
  "FORMAT_VERSION_LABEL = ''state-proxy.io/use''"

definition FORMAT_VERSION :: string where
  "FORMAT_VERSION = ''v0''"

definition SERVICES_ANNOTATION :: string where
  "SERVICES_ANNOTATION = ''state-proxy.io/services''"

datatype 'uri kubernetes_config = KubeConfig "string option" | Explicit 'uri

record object_meta =
  meta_uid :: "string option"
  meta_name :: "string option"
  meta_annotations :: "(string \<times> string) list option"

record pod_status =
  pod_ip :: "string option"
  pod_phase :: "string option"

record pod =
  pod_metadata :: object_meta
  pod_status :: "pod_status option"

datatype pod_event = Applied pod | Deleted pod | Restarted "pod list"

datatype k8s_error =
    ChannelClosed
  | NotAPort string int_error
  | InvalidServiceString
  | BadAddress string
  | InService string k8s_error

section \<open>Construction\<close>

record 'cfg kubernetes_endpoint_discovery =
  ked_name :: string
  ked_config :: 'cfg
  ked_namespace :: string

datatype 'e new_error = ConfigError 'e | NoScheme

definition discovery_new ::
    "(string option \<Rightarrow> 'e + 'cfg) \<Rightarrow> ('uri \<Rightarrow> bool) \<Rightarrow> ('uri \<Rightarrow> 'cfg) \<Rightarrow> ('cfg \<Rightarrow> string) \<Rightarrow>
     'uri kubernetes_config \<Rightarrow> string option \<Rightarrow> 'e new_error + 'cfg kubernetes_endpoint_discovery" where
  "discovery_new from_kubeconfig has_scheme config_new cluster_url config namespace =
     (let namespace = (case namespace of None \<Rightarrow> ''default'' | Some n \<Rightarrow> n);
          config = (case config of
             KubeConfig context \<Rightarrow>
               (case from_kubeconfig context of Inl e \<Rightarrow> Inl (ConfigError e) | Inr c \<Rightarrow> Inr c)
           | Explicit url \<Rightarrow> if has_scheme url then Inr (config_new url) else Inl NoScheme)
      in case config of
           Inl e \<Rightarrow> Inl e
         | Inr cfg \<Rightarrow>
             Inr \<lparr>ked_name = ''kubernetes@'' @ cluster_url cfg @ ''/'' @ namespace,
                  ked_config = cfg, ked_namespace = namespace\<rparr>)"

section \<open>The runtime\<close>

record 'c k8s_runtime =
  rt_name :: string
  rt_sender :: 'c
  known_pod_uids :: "string hash_set"

definition runtime_new :: "string \<Rightarrow> 'c \<Rightarrow> 'c k8s_runtime" where
  "runtime_new name sender = \<lparr>rt_name = name, rt_sender = sender, known_pod_uids = []\<rparr>"

type_synonym 'c k8s_result = "'c k8s_runtime \<times> (k8s_error + unit)"

definition k8s_send ::
    "('c \<Rightarrow> endpoint_event \<Rightarrow> 'c option) \<Rightarrow> 'c k8s_runtime \<Rightarrow> endpoint_event \<Rightarrow> 'c k8s_result" where
  "k8s_send send rt event =
     (case send (rt_sender rt) event of
        Some c \<Rightarrow> (rt\<lparr>rt_sender := c\<rparr>, Inr ())
      | None \<Rightarrow> (rt, Inl ChannelClosed))"

definition parse_port :: "string \<Rightarrow> k8s_error + u16" where
  "parse_port port = (case parse_u16 port of Inl e \<Rightarrow> Inl (NotAPort port e) | Inr n \<Rightarrow> Inr n)"

definition send_service_from_string ::
    "('c \<Rightarrow> endpoint_event \<Rightarrow> 'c option) \<Rightarrow> 'c k8s_runtime \<Rightarrow> string \<Rightarrow> string \<Rightarrow> ip_addr \<Rightarrow>
     'c k8s_result" where
  "send_service_from_string send rt service_string uid pod_address =
     (case split_on CHR '':'' service_string of
        external_port # external_protocol # backend_port # backend_protocol # _ \<Rightarrow>
          (case parse_port external_port of
             Inl e \<Rightarrow> (rt, Inl e)
           | Inr xport \<Rightarrow>
               (case parse_port backend_port of
                  Inl e \<Rightarrow> (rt, Inl e)
                | Inr bport \<Rightarrow>
                    k8s_send send rt
                      (endpoint_event_add uid False xport external_protocol
                        (SocketAddr pod_address bport) backend_protocol)))
      | _ \<Rightarrow> (rt, Inl InvalidServiceString))"

fun send_services ::
    "('c \<Rightarrow> endpoint_event \<Rightarrow> 'c option) \<Rightarrow> 'c k8s_runtime \<Rightarrow> string \<Rightarrow> ip_addr \<Rightarrow> string list \<Rightarrow>
     'c k8s_result" where
  "send_services send rt uid pod_address [] = (rt, Inr ())"
| "send_services send rt uid pod_address (s # ss) =
     (case send_service_from_string send rt s uid pod_address of
        (rt', Inl e) \<Rightarrow> (rt', Inl (InService s e))
      | (rt', Inr _) \<Rightarrow> send_services send rt' uid pod_address ss)"

definition discover_services ::
    "('c \<Rightarrow> endpoint_event \<Rightarrow> 'c option) \<Rightarrow> 'c k8s_runtime \<Rightarrow> (string \<times> string) list \<Rightarrow> string \<Rightarrow>
     ip_addr \<Rightarrow> 'c k8s_result" where
  "discover_services send rt annotations uid pod_address =
     (case map_of annotations SERVICES_ANNOTATION of
        None \<Rightarrow> (rt, Inr ())
      | Some services_string \<Rightarrow>
          send_services send rt uid pod_address (split_on CHR '','' services_string))"

text \<open>The five optional fields that \<open>apply_pod\<close> needs.\<close>

definition pod_details ::
    "pod \<Rightarrow> (string \<times> string \<times> (string \<times> string) list \<times> string \<times> string) option" where
  "pod_details p =
     (case pod_status p of
        None \<Rightarrow> None
      | Some st \<Rightarrow>
          (case (meta_uid (pod_metadata p), meta_name (pod_metadata p),
                 meta_annotations (pod_metadata p), pod_ip st, pod_phase st) of
             (Some uid, Some name, Some annotations, Some address, Some phase) \<Rightarrow>
               Some (uid, name, annotations, address, phase)
           | _ \<Rightarrow> None))"

definition handle_phase ::
    "('c \<Rightarrow> endpoint_event \<Rightarrow> 'c option) \<Rightarrow> 'c k8s_runtime \<Rightarrow> string \<Rightarrow> string \<Rightarrow> 'c k8s_result" where
  "handle_phase send rt uid phase =
     (if phase = ''Running'' then k8s_send send rt (endpoint_event_resume uid)
      else if phase = ''Succeeded'' then
        k8s_send send (rt\<lparr>known_pod_uids := hs_remove uid (known_pod_uids rt)\<rparr>)
          (endpoint_event_delete uid)
      else if phase = ''Failed'' then k8s_send send rt (endpoint_event_suspend uid)
      else if phase = ''Unknown'' then k8s_send send rt (endpoint_event_suspend uid)
      else if phase = ''Pending'' then (rt, Inr ())
      else k8s_send send rt (endpoint_event_suspend uid))"

definition apply_pod ::
    "('c \<Rightarrow> endpoint_event \<Rightarrow> 'c option) \<Rightarrow> 'c k8s_runtime \<Rightarrow> pod \<Rightarrow> 'c k8s_result" where
  "apply_pod send rt p =
     (case pod_details p of
        None \<Rightarrow> (rt, Inr ())
      | Some (uid, name, annotations, address, phase) \<Rightarrow>
          (case parse_ip address of
             None \<Rightarrow> (rt, Inl (BadAddress address))
           | Some addr \<Rightarrow>
               let (known, new) = hs_insert uid (known_pod_uids rt);
                   rt1 = rt\<lparr>known_pod_uids := known\<rparr>
               in (case (if new then discover_services send rt1 annotations uid addr
                         else (rt1, Inr ())) of
                     (rt2, Inl e) \<Rightarrow> (rt2, Inl e)
                   | (rt2, Inr _) \<Rightarrow> handle_phase send rt2 uid phase)))"

text \<open>The two loops of the \<^verbatim>\<open>Restarted\<close> branch.\<close>

fun apply_pods ::
    "('c \<Rightarrow> endpoint_event \<Rightarrow> 'c option) \<Rightarrow> 'c k8s_runtime \<Rightarrow> string hash_set \<Rightarrow> pod list \<Rightarrow>
     'c k8s_runtime \<times> string hash_set \<times> (k8s_error + unit)" where
  "apply_pods send rt current [] = (rt, current, Inr ())"
| "apply_pods send rt current (p # ps) =
     (case meta_uid (pod_metadata p) of
        None \<Rightarrow> apply_pods send rt current ps
      | Some uid \<Rightarrow>
          let current' = fst (hs_insert uid current)
          in (case apply_pod send rt p of
                (rt', Inl e) \<Rightarrow> (rt', current', Inl e)
              | (rt', Inr _) \<Rightarrow> apply_pods send rt' current' ps))"

fun delete_unlisted ::
    "('c \<Rightarrow> endpoint_event \<Rightarrow> 'c option) \<Rightarrow> 'c k8s_runtime \<Rightarrow> string list \<Rightarrow> 'c k8s_result" where
  "delete_unlisted send rt [] = (rt, Inr ())"
| "delete_unlisted send rt (uid # uids) =
     (if uid \<notin> set (known_pod_uids rt) then
        (case k8s_send send rt (endpoint_event_delete uid) of
           (rt', Inl e) \<Rightarrow> (rt', Inl e)
         | (rt', Inr _) \<Rightarrow> delete_unlisted send rt' uids)
      else delete_unlisted send rt uids)"

fun handle_pod_event ::
    "('c \<Rightarrow> endpoint_event \<Rightarrow> 'c option) \<Rightarrow> 'c k8s_runtime \<Rightarrow> pod_event \<Rightarrow> 'c k8s_result" where
  "handle_pod_event send rt (Applied p) =
     (if meta_uid (pod_metadata p) \<noteq> None then apply_pod send rt p else (rt, Inr ()))"
| "handle_pod_event send rt (Deleted p) =
     (case meta_uid (pod_metadata p) of
        Some uid \<Rightarrow>
          k8s_send send (rt\<lparr>known_pod_uids := hs_remove uid (known_pod_uids rt)\<rparr>)
            (endpoint_event_delete uid)
      | None \<Rightarrow> (rt, Inr ()))"
| "handle_pod_event send rt (Restarted ps) =
     (case apply_pods send rt [] ps of
        (rt', current, Inl e) \<Rightarrow> (rt', Inl e)
      | (rt', current, Inr _) \<Rightarrow>
          let old = known_pod_uids rt'
          in delete_unlisted send (rt'\<lparr>known_pod_uids := current\<rparr>) old)"

section \<open>The task\<close>

datatype 'e run_error = ConnectError 'e | WatchError 'e | PodError k8s_error | StreamClosed

definition label_selector :: string where
  "label_selector = FORMAT_VERSION_LABEL @ ''='' @ FORMAT_VERSION"

text \<open>The loop over the watch stream, given as the list of what \<^verbatim>\<open>try_next\<close> yields until it
  yields \<^verbatim>\<open>None\<close>.\<close>

fun watch_pods ::
    "('c \<Rightarrow> endpoint_event \<Rightarrow> 'c option) \<Rightarrow> 'c k8s_runtime \<Rightarrow> ('e + pod_event) list \<Rightarrow>
     'c k8s_runtime \<times> ('e run_error + unit)" where
  "watch_pods send rt [] = (rt, Inl StreamClosed)"
| "watch_pods send rt (Inl e # _) = (rt, Inl (WatchError e))"
| "watch_pods send rt (Inr ev # evs) =
     (case handle_pod_event send rt ev of
        (rt', Inl e) \<Rightarrow> (rt', Inl (PodError e))
      | (rt', Inr _) \<Rightarrow> watch_pods send rt' evs)"

text \<open>\<open>connect\<close> is \<^verbatim>\<open>Client::try_from\<close> and \<open>watcher\<close> the stream for a client, a namespace and a
  label selector.\<close>

definition discovery_run ::
    "('c \<Rightarrow> endpoint_event \<Rightarrow> 'c option) \<Rightarrow> ('cfg \<Rightarrow> 'e + 'client) \<Rightarrow>
     ('client \<Rightarrow> string \<Rightarrow> string \<Rightarrow> ('e + pod_event) list) \<Rightarrow>
     'cfg kubernetes_endpoint_discovery \<Rightarrow> 'c \<Rightarrow> 'c \<times> ('e run_error + unit)" where
  "discovery_run send connect watcher ked sender =
     (case connect (ked_config ked) of
        Inl e \<Rightarrow> (sender, Inl (ConnectError e))
      | Inr client \<Rightarrow>
          (case watch_pods send (runtime_new (ked_name ked) sender)
                  (watcher client (ked_namespace ked) label_selector) of
             (rt, r) \<Rightarrow> (rt_sender rt, r)))"

text \<open>The implementation of \<^verbatim>\<open>EndpointDiscovery\<close>: the task ends with the error it logs.\<close>

definition kubernetes_discovery ::
    "('c \<Rightarrow> endpoint_event \<Rightarrow> 'c option) \<Rightarrow> ('cfg \<Rightarrow> 'e + 'client) \<Rightarrow>
     ('client \<Rightarrow> string \<Rightarrow> string \<Rightarrow> ('e + pod_event) list) \<Rightarrow>
     'cfg kubernetes_endpoint_discovery \<Rightarrow> ('c, 'c \<times> 'e run_error option) endpoint_discovery" where
  "kubernetes_discovery send connect watcher ked =
     \<lparr>ed_name = ked_name ked,
      ed_run_with_sender = (\<lambda>sender.
        (case discovery_run send connect watcher ked sender of
           (sender', Inl err) \<Rightarrow> (sender', Some err)
         | (sender', Inr _) \<Rightarrow> (sender', None)))\<rparr>"

end
