(* ===== verification/Kubernetes_Plan.thy ===== *)
theory Kubernetes_Plan
  imports Kubernetes Service_Directory
begin

text \<open>
  The reference definition of the Kubernetes discovery: for the uids known so far and one watch
  event, \<open>plan\<close> is the uids known afterwards and the list of endpoint events, or \<open>None\<close> when the
  event cannot be handled (a malformed service string or address). It neither has a channel nor
  stops half-way. The handlers of \<open>Kubernetes\<close> succeed exactly when there is a plan and the
  channel accepts all of it, and then have sent exactly the plan, in order.
\<close>

section \<open>The plan of an event\<close>

definition service_event :: "string \<Rightarrow> ip_addr \<Rightarrow> string \<Rightarrow> endpoint_event option" where
  "service_event uid addr s =
     (case split_on CHR '':'' s of
        xport # xproto # bport # bproto # _ \<Rightarrow>
          (case (parse_u16 xport, parse_u16 bport) of
             (Inr x, Inr b) \<Rightarrow> Some (Add uid False x xproto (SocketAddr addr b) bproto)
           | _ \<Rightarrow> None)
      | _ \<Rightarrow> None)"

definition services_plan :: "string \<Rightarrow> ip_addr \<Rightarrow> (string \<times> string) list \<Rightarrow> endpoint_event list option" where
  "services_plan uid addr annotations =
     (case map_of annotations SERVICES_ANNOTATION of
        None \<Rightarrow> Some []
      | Some s \<Rightarrow> those (map (service_event uid addr) (split_on CHR '','' s)))"

definition phase_plan :: "string \<Rightarrow> string \<Rightarrow> endpoint_event list" where
  "phase_plan uid phase =
     (if phase = ''Running'' then [Resume uid]
      else if phase = ''Succeeded'' then [Delete uid]
      else if phase = ''Pending'' then []
      else [Suspend uid])"

definition pod_plan :: "string hash_set \<Rightarrow> pod \<Rightarrow> (string hash_set \<times> endpoint_event list) option" where
  "pod_plan known p =
     (case pod_details p of
        None \<Rightarrow> Some (known, [])
      | Some (uid, name, annotations, address, phase) \<Rightarrow>
          (case parse_ip address of
             None \<Rightarrow> None
           | Some addr \<Rightarrow>
               (case (if uid \<in> set known then Some [] else services_plan uid addr annotations) of
                  None \<Rightarrow> None
                | Some adds \<Rightarrow>
                    let known' = fst (hs_insert uid known)
                    in Some (if phase = ''Succeeded'' then hs_remove uid known' else known',
                             adds @ phase_plan uid phase))))"

fun pods_plan :: "string hash_set \<Rightarrow> string hash_set \<Rightarrow> pod list \<Rightarrow>
    (string hash_set \<times> string hash_set \<times> endpoint_event list) option" where
  "pods_plan known current [] = Some (known, current, [])"
| "pods_plan known current (p # ps) =
     (case meta_uid (pod_metadata p) of
        None \<Rightarrow> pods_plan known current ps
      | Some uid \<Rightarrow>
          (case pod_plan known p of
             None \<Rightarrow> None
           | Some (known', evs) \<Rightarrow>
               (case pods_plan known' (fst (hs_insert uid current)) ps of
                  None \<Rightarrow> None
                | Some (known'', current', evs') \<Rightarrow> Some (known'', current', evs @ evs'))))"

fun plan :: "string hash_set \<Rightarrow> pod_event \<Rightarrow> (string hash_set \<times> endpoint_event list) option" where
  "plan known (Applied p) =
     (if meta_uid (pod_metadata p) \<noteq> None then pod_plan known p else Some (known, []))"
| "plan known (Deleted p) =
     (case meta_uid (pod_metadata p) of
        Some uid \<Rightarrow> Some (hs_remove uid known, [Delete uid])
      | None \<Rightarrow> Some (known, []))"
| "plan known (Restarted ps) =
     (case pods_plan known [] ps of
        None \<Rightarrow> None
      | Some (known', current, evs) \<Rightarrow>
          Some (current, evs @ map Delete (filter (\<lambda>uid. uid \<notin> set current) known')))"

section \<open>The handlers carry out the plan\<close>

lemma k8s_send_ok:
  "k8s_send send rt ev = (rt', Inr ()) \<longleftrightarrow>
     (\<exists>c. send (rt_sender rt) ev = Some c \<and> rt' = rt\<lparr>rt_sender := c\<rparr>)"
  by (auto simp: k8s_send_def split: option.splits)

lemma send_service_ok:
  "send_service_from_string send rt s uid addr = (rt', Inr ()) \<longleftrightarrow>
     (\<exists>ev c. service_event uid addr s = Some ev \<and> send (rt_sender rt) ev = Some c \<and>
             rt' = rt\<lparr>rt_sender := c\<rparr>)"
  by (auto simp: send_service_from_string_def service_event_def parse_port_def k8s_send_ok
      split: list.splits sum.splits)

lemma send_services_ok:
  "send_services send rt uid addr ss = (rt', Inr ()) \<longleftrightarrow>
     (\<exists>evs c. those (map (service_event uid addr) ss) = Some evs \<and>
              run_all send (rt_sender rt) evs = Some c \<and> rt' = rt\<lparr>rt_sender := c\<rparr>)"
proof (induction ss arbitrary: rt)
  case Nil
  then show ?case by auto
next
  case (Cons s ss)
  have "send_services send rt uid addr (s # ss) = (rt', Inr ()) \<longleftrightarrow>
      (\<exists>rt1. send_service_from_string send rt s uid addr = (rt1, Inr ()) \<and>
             send_services send rt1 uid addr ss = (rt', Inr ()))"
    by (auto split: prod.splits sum.splits)
  also have "\<dots> \<longleftrightarrow> (\<exists>evs c. those (map (service_event uid addr) (s # ss)) = Some evs \<and>
              run_all send (rt_sender rt) evs = Some c \<and> rt' = rt\<lparr>rt_sender := c\<rparr>)"
    by (auto simp: send_service_ok Cons.IH split: option.splits)
  finally show ?case .
qed

lemma discover_services_ok:
  "discover_services send rt annotations uid addr = (rt', Inr ()) \<longleftrightarrow>
     (\<exists>evs c. services_plan uid addr annotations = Some evs \<and>
              run_all send (rt_sender rt) evs = Some c \<and> rt' = rt\<lparr>rt_sender := c\<rparr>)"
  by (auto simp: discover_services_def services_plan_def send_services_ok split: option.splits)

lemma handle_phase_ok:
  "handle_phase send rt uid phase = (rt', Inr ()) \<longleftrightarrow>
     (\<exists>c. run_all send (rt_sender rt) (phase_plan uid phase) = Some c \<and>
          rt' = rt\<lparr>rt_sender := c, known_pod_uids :=
                  (if phase = ''Succeeded'' then hs_remove uid (known_pod_uids rt)
                   else known_pod_uids rt)\<rparr>)"
proof -
  have other: "handle_phase send rt uid phase = k8s_send send rt (Suspend uid)"
    if "phase \<noteq> ''Running''" "phase \<noteq> ''Succeeded''" "phase \<noteq> ''Pending''"
    using that by (simp add: handle_phase_def)
  consider (running) "phase = ''Running''" | (succeeded) "phase = ''Succeeded''"
    | (pending) "phase = ''Pending''"
    | (other) "phase \<noteq> ''Running''" "phase \<noteq> ''Succeeded''" "phase \<noteq> ''Pending''"
    by blast
  then show ?thesis
  proof cases
    case running
    then show ?thesis
      by (auto simp: handle_phase_def phase_plan_def k8s_send_ok split: option.split)
  next
    case succeeded
    then show ?thesis
      by (auto simp: handle_phase_def phase_plan_def k8s_send_ok split: option.split)
  next
    case pending
    then show ?thesis
      by (auto simp: handle_phase_def phase_plan_def)
  next
    case phases: other
    then show ?thesis
      unfolding other [OF phases] phase_plan_def by (auto simp: k8s_send_ok split: option.split)
  qed
qed

lemma apply_pod_ok:
  "apply_pod send rt p = (rt', Inr ()) \<longleftrightarrow>
     (\<exists>known evs c. pod_plan (known_pod_uids rt) p = Some (known, evs) \<and>
        run_all send (rt_sender rt) evs = Some c \<and>
        rt' = rt\<lparr>rt_sender := c, known_pod_uids := known\<rparr>)"
proof (cases "pod_details p")
  case None
  then show ?thesis by (auto simp: apply_pod_def pod_plan_def)
next
  case (Some d)
  obtain uid name annotations address phase where d: "d = (uid, name, annotations, address, phase)"
    by (cases d) auto
  show ?thesis
  proof (cases "parse_ip address")
    case None
    with Some d show ?thesis by (simp add: apply_pod_def pod_plan_def)
  next
    case (Some addr)
    let ?rt1 = "rt\<lparr>known_pod_uids := fst (hs_insert uid (known_pod_uids rt))\<rparr>"
    have "apply_pod send rt p = (rt', Inr ()) \<longleftrightarrow>
        (\<exists>rt2. (if uid \<notin> set (known_pod_uids rt) then discover_services send ?rt1 annotations uid addr
                else (?rt1, Inr ())) = (rt2, Inr ()) \<and> handle_phase send rt2 uid phase = (rt', Inr ()))"
      using Some \<open>pod_details p = Some d\<close> d
      by (auto simp: apply_pod_def hs_insert_def split: prod.splits sum.splits)
    then show ?thesis
      using Some \<open>pod_details p = Some d\<close> d
      by (auto simp: pod_plan_def discover_services_ok handle_phase_ok run_all_append
          split: option.splits)
  qed
qed

lemma apply_pods_ok:
  "apply_pods send rt current ps = (rt', current', Inr ()) \<longleftrightarrow>
     (\<exists>known evs c. pods_plan (known_pod_uids rt) current ps = Some (known, current', evs) \<and>
        run_all send (rt_sender rt) evs = Some c \<and>
        rt' = rt\<lparr>rt_sender := c, known_pod_uids := known\<rparr>)"
proof (induction ps arbitrary: rt current)
  case Nil
  then show ?case by auto
next
  case (Cons p ps)
  show ?case
  proof (cases "meta_uid (pod_metadata p)")
    case None
    then show ?thesis using Cons.IH by simp
  next
    case (Some uid)
    let ?cur = "fst (hs_insert uid current)"
    have "apply_pods send rt current (p # ps) = (rt', current', Inr ()) \<longleftrightarrow>
        (\<exists>rt1. apply_pod send rt p = (rt1, Inr ()) \<and> apply_pods send rt1 ?cur ps = (rt', current', Inr ()))"
      using Some by (auto simp: Let_def split: prod.splits sum.splits)
    then show ?thesis
      using Some
      by (auto simp: apply_pod_ok Cons.IH run_all_append split: option.splits) 
  qed
qed

lemma delete_unlisted_ok:
  "delete_unlisted send rt uids = (rt', Inr ()) \<longleftrightarrow>
     (\<exists>c. run_all send (rt_sender rt)
            (map Delete (filter (\<lambda>uid. uid \<notin> set (known_pod_uids rt)) uids)) = Some c \<and>
          rt' = rt\<lparr>rt_sender := c\<rparr>)"
proof (induction uids arbitrary: rt)
  case Nil
  then show ?case by auto
next
  case (Cons uid uids)
  have "delete_unlisted send rt (uid # uids) = (rt', Inr ()) \<longleftrightarrow>
      (if uid \<notin> set (known_pod_uids rt)
       then \<exists>rt1. k8s_send send rt (Delete uid) = (rt1, Inr ()) \<and> delete_unlisted send rt1 uids = (rt', Inr ())
       else delete_unlisted send rt uids = (rt', Inr ()))"
    by (auto split: prod.splits sum.splits)
  then show ?case
    by (auto simp: k8s_send_ok Cons.IH split: option.splits)
qed

lemma handle_pod_event_ok:
  "handle_pod_event send rt ev = (rt', Inr ()) \<longleftrightarrow>
     (\<exists>known evs c. plan (known_pod_uids rt) ev = Some (known, evs) \<and>
        run_all send (rt_sender rt) evs = Some c \<and>
        rt' = rt\<lparr>rt_sender := c, known_pod_uids := known\<rparr>)"
proof (cases ev)
  case (Applied p)
  then show ?thesis by (auto simp: apply_pod_ok)
next
  case (Deleted p)
  then show ?thesis by (auto simp: k8s_send_ok split: option.splits)
next
  case (Restarted ps)
  have "handle_pod_event send rt ev = (rt', Inr ()) \<longleftrightarrow>
      (\<exists>rt1 current. apply_pods send rt [] ps = (rt1, current, Inr ()) \<and>
         delete_unlisted send (rt1\<lparr>known_pod_uids := current\<rparr>) (known_pod_uids rt1) = (rt', Inr ()))"
    using Restarted by (auto simp: Let_def split: prod.splits sum.splits)
  then show ?thesis
    using Restarted
    by (auto simp: apply_pods_ok delete_unlisted_ok run_all_append split: option.splits)
qed

section \<open>Facts about plans\<close>

lemma those_map_Some:
  "those (map f xs) = Some ys \<longleftrightarrow> list_all2 (\<lambda>x y. f x = Some y) xs ys"
  by (induction xs arbitrary: ys) (auto simp: list_all2_Cons1 split: option.splits)

lemma service_event_shape:
  "service_event uid addr s = Some ev \<Longrightarrow>
     \<exists>x xp b bp. ev = Add uid False x xp (SocketAddr addr b) bp"
  by (auto simp: service_event_def split: list.splits sum.splits)

lemma services_plan_adds:
  "services_plan uid addr annotations = Some evs \<Longrightarrow> ev \<in> set evs \<Longrightarrow>
     is_Add ev \<and> ev_uid ev = uid"
  by (fastforce simp: services_plan_def those_map_Some list_all2_conv_all_nth in_set_conv_nth
      split: option.splits dest: service_event_shape)

lemma phase_plan_uid: "ev \<in> set (phase_plan uid phase) \<Longrightarrow> \<not> is_Add ev \<and> ev_uid ev = uid"
  by (auto simp: phase_plan_def split: if_splits)

lemma pod_details_uid:
  "pod_details p = Some (uid, name, annotations, address, phase) \<Longrightarrow>
     meta_uid (pod_metadata p) = Some uid"
  by (auto simp: pod_details_def split: option.splits)

text \<open>A plan for one pod, taken apart.\<close>

lemma pod_plan_cases:
  assumes "pod_plan known p = Some (known', evs)"
  obtains (skip) "pod_details p = None" "known' = known" "evs = []"
  | (plan) uid name annotations address phase addr adds where
      "pod_details p = Some (uid, name, annotations, address, phase)"
      "parse_ip address = Some addr"
      "(if uid \<in> set known then Some [] else services_plan uid addr annotations) = Some adds"
      "set known' = (if phase = ''Succeeded'' then set known - {uid} else insert uid (set known))"
      "evs = adds @ phase_plan uid phase"
  using assms
  by (fastforce simp: pod_plan_def rust_simps Let_def split: option.splits prod.splits if_splits)

lemma pod_plan_known_no_add:
  assumes "pod_plan known p = Some (known', evs)" and "meta_uid (pod_metadata p) = Some uid"
    and "uid \<in> set known" and "ev \<in> set evs"
  shows "\<not> is_Add ev"
  using assms(1)
proof (cases rule: pod_plan_cases)
  case skip
  with assms(4) show ?thesis by simp
next
  case (plan uid' name annotations address phase addr adds)
  then show ?thesis
    using assms(2-4) pod_details_uid [OF plan(1)] phase_plan_uid by auto
qed

lemma pods_plan_current:
  "pods_plan known current ps = Some (known', current', evs) \<Longrightarrow>
     set current' = set current \<union> {uid. \<exists>p \<in> set ps. meta_uid (pod_metadata p) = Some uid}"
  by (induction ps arbitrary: known current evs)
     (auto simp: rust_simps split: option.splits)

lemma pods_plan_known:
  "pods_plan known current ps = Some (known', current', evs) \<Longrightarrow>
     set known \<subseteq> set known' \<union> set current' \<and> set known' \<subseteq> set known \<union> set current'"
proof (induction ps arbitrary: known current evs)
  case Nil
  then show ?case by simp
next
  case (Cons p ps)
  show ?case
  proof (cases "meta_uid (pod_metadata p)")
    case None
    then show ?thesis using Cons by auto
  next
    case (Some uid)
    then obtain known1 evs1 evs2 where
      pp: "pod_plan known p = Some (known1, evs1)"
      and rest: "pods_plan known1 (fst (hs_insert uid current)) ps = Some (known', current', evs2)"
      using Cons.prems by (auto split: option.splits)
    have cur: "uid \<in> set current'"
      using pods_plan_current [OF rest] by (simp add: rust_simps)
    have "set known \<subseteq> insert uid (set known1)" "set known1 \<subseteq> insert uid (set known)"
      using pp Some by (auto elim!: pod_plan_cases dest!: pod_details_uid split: if_splits)
    with Cons.IH [OF rest] cur show ?thesis by auto
  qed
qed

lemma pods_plan_source:
  "pods_plan known current ps = Some (known', current', evs) \<Longrightarrow> ev \<in> set evs \<Longrightarrow>
     \<exists>p \<in> set ps. meta_uid (pod_metadata p) = Some (ev_uid ev) \<and> pod_details p \<noteq> None"
proof (induction ps arbitrary: known current evs)
  case Nil
  then show ?case by simp
next
  case (Cons p ps)
  show ?case
  proof (cases "meta_uid (pod_metadata p)")
    case None
    then show ?thesis using Cons by auto
  next
    case (Some uid)
    then obtain known1 evs1 evs2 where
      pp: "pod_plan known p = Some (known1, evs1)" and evs: "evs = evs1 @ evs2"
      and rest: "pods_plan known1 (fst (hs_insert uid current)) ps = Some (known', current', evs2)"
      using Cons.prems by (auto split: option.splits)
    have "ev_uid ev = uid" if "ev \<in> set evs1"
      using pp that Some
      by (auto elim!: pod_plan_cases dest!: pod_details_uid services_plan_adds phase_plan_uid
          split: if_splits)
    moreover have "pod_details p \<noteq> None" if "ev \<in> set evs1"
      using pp that by (cases "pod_details p") (simp_all add: pod_plan_def)
    ultimately show ?thesis
      using Cons.prems(2) Cons.IH [OF rest] Some by (auto simp: evs)
  qed
qed

lemma pod_plan_deletes:
  assumes "pod_plan known p = Some (known', evs)" and "Delete uid \<in> set evs"
  shows "\<exists>name annotations address. pod_details p = Some (uid, name, annotations, address, ''Succeeded'')"
  using assms(1)
proof (cases rule: pod_plan_cases)
  case (plan uid' name annotations address phase addr adds)
  have "Delete uid \<notin> set adds" using plan(3) services_plan_adds by (force split: if_splits)
  then have "Delete uid \<in> set (phase_plan uid' phase)" using assms(2) plan(5) by simp
  then show ?thesis using plan(1) by (auto simp: phase_plan_def split: if_splits)
qed (use assms(2) in simp)

lemma pods_plan_ConsE:
  assumes "pods_plan known current (p # ps) = Some (known', current', evs)"
  obtains (skip) "meta_uid (pod_metadata p) = None" "pods_plan known current ps = Some (known', current', evs)"
  | (plan) uid known1 evs1 evs2 where "meta_uid (pod_metadata p) = Some uid" "pod_plan known p = Some (known1, evs1)"
      "pods_plan known1 (fst (hs_insert uid current)) ps = Some (known', current', evs2)" "evs = evs1 @ evs2"
  using assms by (auto split: option.splits)

lemma pods_plan_deletes:
  "pods_plan known current ps = Some (known', current', evs) \<Longrightarrow> Delete uid \<in> set evs \<Longrightarrow>
     \<exists>p \<in> set ps. \<exists>name annotations address. pod_details p = Some (uid, name, annotations, address, ''Succeeded'')"
proof (induction ps arbitrary: known current evs)
  case (Cons p ps)
  from Cons.prems(1) show ?case
  proof (cases rule: pods_plan_ConsE)
    case skip
    then show ?thesis using Cons.IH Cons.prems(2) by force
  next
    case (plan u known1 evs1 evs2)
    then show ?thesis using Cons.IH [OF plan(3)] Cons.prems(2) pod_plan_deletes [OF plan(2)] by auto
  qed
qed simp

lemma pod_plan_distinct: "pod_plan known p = Some (known', evs) \<Longrightarrow> distinct known \<Longrightarrow> distinct known'"
  by (auto simp: pod_plan_def hs_insert_def hs_remove_def Let_def split: option.splits if_splits)

lemma pods_plan_distinct:
  "pods_plan known current ps = Some (known', current', evs) \<Longrightarrow> distinct known \<Longrightarrow> distinct known'"
proof (induction ps arbitrary: known current evs)
  case (Cons p ps)
  from Cons.prems(1) show ?case
    by (cases rule: pods_plan_ConsE) (use Cons.IH Cons.prems(2) pod_plan_distinct in blast)+
qed simp

text \<open>A known pod is forgotten only when it has succeeded, and its services are not announced again.\<close>

lemma pod_plan_stays:
  assumes "pod_plan known p = Some (known', evs)" and "uid \<in> set known"
    and "\<nexists>name annotations address. pod_details p = Some (uid, name, annotations, address, ''Succeeded'')"
  shows "uid \<in> set known' \<and> (\<forall>ev. ev \<in> set evs \<and> is_Add ev \<longrightarrow> ev_uid ev \<noteq> uid)"
  using assms(1)
proof (cases rule: pod_plan_cases)
  case (plan uid' name annotations address phase addr adds)
  have "ev_uid ev \<noteq> uid" if "ev \<in> set evs" "is_Add ev" for ev
    using that plan(3,5) assms(2) services_plan_adds [of uid' addr annotations adds] phase_plan_uid
    by (auto split: if_splits)
  then show ?thesis using plan(1,4) assms(2,3) by auto
qed (use assms(2) in simp)

lemma pods_plan_stays:
  "pods_plan known current ps = Some (known', current', evs) \<Longrightarrow> uid \<in> set known \<Longrightarrow>
     \<forall>p \<in> set ps. \<nexists>name annotations address. pod_details p = Some (uid, name, annotations, address, ''Succeeded'') \<Longrightarrow>
     ev \<in> set evs \<Longrightarrow> is_Add ev \<Longrightarrow> ev_uid ev \<noteq> uid"
proof (induction ps arbitrary: known current evs)
  case (Cons p ps)
  from Cons.prems(1) show ?case
  proof (cases rule: pods_plan_ConsE)
    case skip
    then show ?thesis using Cons.IH Cons.prems by auto
  next
    case (plan u known1 evs1 evs2)
    have "uid \<in> set known1 \<and> (\<forall>ev. ev \<in> set evs1 \<and> is_Add ev \<longrightarrow> ev_uid ev \<noteq> uid)"
      using pod_plan_stays [OF plan(2) Cons.prems(2)] Cons.prems(3) by simp
    then show ?thesis using Cons.IH [OF plan(3)] Cons.prems(3-5) plan(4) by auto
  qed
qed simp

section \<open>The endpoints of the task in the directory\<close>

text \<open>The pods of the task that the service manager knows endpoints of.\<close>

definition owned :: "string \<Rightarrow> directory \<Rightarrow> string set" where
  "owned name d = {uid. \<exists>p. endpoint_at d p (endpoint_id_new name uid) \<noteq> None}"

lemma owned_step:
  "owned name (dir_step name (Add uid a x xp ba bp) d) = insert uid (owned name d)"
  "owned name (dir_step name (Delete uid) d) = owned name d - {uid}"
  "owned name (dir_step name (Suspend uid) d) = owned name d"
  "owned name (dir_step name (Resume uid) d) = owned name d"
  unfolding owned_def endpoint_at_step by (auto split: if_splits)

lemma owned_other_task: "name \<noteq> from \<Longrightarrow> owned name (dir_step from ev d) = owned name d"
  unfolding owned_def by (subst endpoint_at_other_task) (auto simp: endpoint_id_new_def)

lemma owned_adds:
  "(\<And>e. e \<in> set evs \<Longrightarrow> is_Add e \<and> ev_uid e = uid) \<Longrightarrow>
     owned name (fold (dir_step name) evs d) \<subseteq> insert uid (owned name d)"
proof (induction evs arbitrary: d)
  case Nil
  then show ?case by auto
next
  case (Cons e evs)
  obtain a x xp ba bp where "e = Add uid a x xp ba bp"
    using Cons.prems [of e] by (cases e) auto
  then show ?case
    using Cons.IH [of "dir_step name e d"] Cons.prems owned_step(1) [of name uid a x xp ba bp d]
    by (auto simp del: dir_step.simps)
qed

lemma owned_deletes: "owned name (fold (dir_step name) (map Delete uids) d) = owned name d - set uids"
proof (induction uids arbitrary: d)
  case Nil
  then show ?case by simp
next
  case (Cons uid uids)
  then show ?case
    using owned_step(2) [of name uid d] by (auto simp del: dir_step.simps)
qed

lemma owned_phase:
  "owned name (fold (dir_step name) (phase_plan uid phase) d) =
     (if phase = ''Succeeded'' then owned name d - {uid} else owned name d)"
  using owned_step [of name uid] by (simp add: phase_plan_def del: dir_step.simps)

lemma owned_pod_plan:
  assumes "pod_plan known p = Some (known', evs)" and "owned name d \<subseteq> set known"
  shows "owned name (fold (dir_step name) evs d) \<subseteq> set known'"
  using assms(1)
proof (cases rule: pod_plan_cases)
  case skip
  with assms(2) show ?thesis by simp
next
  case (plan uid pod_name annotations address phase addr adds)
  have "owned name (fold (dir_step name) adds d) \<subseteq> insert uid (owned name d)"
    using plan(3) services_plan_adds by (intro owned_adds) (auto split: if_splits)
  with assms(2) plan(4,5) show ?thesis
    by (auto simp: owned_phase)
qed

lemma owned_pods_plan:
  "pods_plan known current ps = Some (known', current', evs) \<Longrightarrow> owned name d \<subseteq> set known \<Longrightarrow>
     owned name (fold (dir_step name) evs d) \<subseteq> set known'"
proof (induction ps arbitrary: known current evs d)
  case Nil
  then show ?case by simp
next
  case (Cons p ps)
  show ?case
  proof (cases "meta_uid (pod_metadata p)")
    case None
    then show ?thesis using Cons by auto
  next
    case (Some uid)
    then obtain known1 evs1 evs2 where
      pp: "pod_plan known p = Some (known1, evs1)" and evs: "evs = evs1 @ evs2"
      and rest: "pods_plan known1 (fst (hs_insert uid current)) ps = Some (known', current', evs2)"
      using Cons.prems by (auto split: option.splits)
    show ?thesis
      using Cons.IH [OF rest owned_pod_plan [OF pp Cons.prems(2)]] by (simp add: evs)
  qed
qed

lemma owned_plan:
  assumes "plan known ev = Some (known', evs)" and "owned name d \<subseteq> set known"
  shows "owned name (fold (dir_step name) evs d) \<subseteq> set known'"
proof (cases ev)
  case (Applied p)
  then show ?thesis
    using assms owned_pod_plan by (auto split: if_splits)
next
  case (Deleted p)
  then show ?thesis
    using assms owned_step(2) by (auto simp: rust_simps simp del: dir_step.simps split: option.splits)
next
  case (Restarted ps)
  then obtain known1 evs1 where
    pp: "pods_plan known [] ps = Some (known1, known', evs1)"
    and evs: "evs = evs1 @ map Delete (filter (\<lambda>uid. uid \<notin> set known') known1)"
    using assms(1) by (auto split: option.splits)
  show ?thesis
    using owned_pods_plan [OF pp assms(2)] by (auto simp: evs owned_deletes)
qed

end
