(* ===== verification/Kubernetes_Properties.thy ===== *)
theory Kubernetes_Properties
  imports Kubernetes_Plan
begin

text \<open>
  The properties of the Kubernetes discovery: the handlers carry out the plan of each watch
  event, service annotations and ports are read back as they were written, what a restart of the
  watch does to the known pods, and where discovery stops.
\<close>

named_theorems k8s_eval \<open>definitions that evaluate the discovery on concrete pods\<close>

lemmas k8s_defs [k8s_eval] =
  apply_pod_def pod_details_def discover_services_def send_service_from_string_def
  handle_phase_def k8s_send_def parse_port_def runtime_new_def SERVICES_ANNOTATION_def
  hs_insert_def hs_remove_def open_channel_def take_channel_def Let_def

lemmas k8s_plan_defs [k8s_eval] =
  pod_plan_def services_plan_def service_event_def phase_plan_def

definition example_pod :: "string \<Rightarrow> string option \<Rightarrow> string \<Rightarrow> string \<Rightarrow> pod" where
  "example_pod uid ip services phase =
     \<lparr>pod_metadata = \<lparr>meta_uid = Some uid, meta_name = Some ''web'',
        meta_annotations = Some [(SERVICES_ANNOTATION, services)]\<rparr>,
      pod_status = Some \<lparr>pod_ip = ip, pod_phase = Some phase\<rparr>\<rparr>"

section \<open>Handlers and plans\<close>


section \<open>Reading annotations\<close>

type_synonym service_spec = "nat \<times> string \<times> nat \<times> string"

definition show_service :: "service_spec \<Rightarrow> string" where
  "show_service s = (case s of (xport, xproto, bport, bproto) \<Rightarrow>
     join_on CHR '':'' [show_nat xport, xproto, show_nat bport, bproto])"

definition valid_service :: "service_spec \<Rightarrow> bool" where
  "valid_service s \<longleftrightarrow> (case s of (xport, xproto, bport, bproto) \<Rightarrow>
     xport < 2 ^ 16 \<and> bport < 2 ^ 16 \<and>
     CHR '':'' \<notin> set xproto \<union> set bproto \<and> CHR '','' \<notin> set xproto \<union> set bproto)"

definition add_of_service :: "string \<Rightarrow> ip_addr \<Rightarrow> service_spec \<Rightarrow> endpoint_event" where
  "add_of_service uid addr s = (case s of (xport, xproto, bport, bproto) \<Rightarrow>
     Add uid False (of_nat xport) xproto (SocketAddr addr (of_nat bport)) bproto)"

lemma parse_u16_show: "n < 2 ^ 16 \<Longrightarrow> parse_u16 (show_nat n) = Inr (of_nat n)"
  by (simp add: parse_u16_def parse_uint_show)

lemma sep_not_digit: "\<not> is_digit CHR '':''" "\<not> is_digit CHR '',''"
  by (simp_all add: is_digit_def digit_val_def)

lemma show_service_no_comma: "valid_service s \<Longrightarrow> CHR '','' \<notin> set (show_service s)"
  by (auto simp: valid_service_def show_service_def show_nat_no_sep [OF sep_not_digit(2)]
      split: prod.splits)

lemma service_event_show:
  "valid_service s \<Longrightarrow> service_event uid addr (show_service s) = Some (add_of_service uid addr s)"
  by (auto simp: service_event_def show_service_def add_of_service_def valid_service_def
      parse_u16_show split_on_append split_on_free show_nat_no_sep [OF sep_not_digit(1)]
      split: prod.splits)

lemma services_plan_show:
  assumes "ss \<noteq> []" and "list_all valid_service ss"
    and "map_of annotations SERVICES_ANNOTATION = Some (join_on CHR '','' (map show_service ss))"
  shows "services_plan uid addr annotations = Some (map (add_of_service uid addr) ss)"
proof -
  have "split_on CHR '','' (join_on CHR '','' (map show_service ss)) = map show_service ss"
    using assms by (intro split_join) (auto simp: list_all_iff show_service_no_comma)
  moreover have "list_all2 (\<lambda>x y. service_event uid addr (show_service x) = Some y) ss
      (map (add_of_service uid addr) ss)"
    using assms(2) by (induction ss) (auto simp: service_event_show)
  ultimately show ?thesis
    by (simp add: services_plan_def those_map_Some list_all2_map1 comp_def assms(3))
qed

text \<open>The same service in the order that the comment above \<^verbatim>\<open>send_service_from_string\<close> documents, with the
  protocol before the port. The code, like the tests, has the port first.\<close>

definition documented_service :: "service_spec \<Rightarrow> string" where
  "documented_service s = (case s of (xport, xproto, bport, bproto) \<Rightarrow>
     join_on CHR '':'' [xproto, show_nat xport, bproto, show_nat bport])"

lemma documented_service_refused:
  assumes "valid_service s" and "parse_u16 (fst (snd s)) = Inl e"
  shows "send_service_from_string send rt (documented_service s) uid addr = (rt, Inl (NotAPort (fst (snd s)) e))"
  using assms
  by (auto simp: send_service_from_string_def documented_service_def valid_service_def parse_port_def
      split_on_append split_on_free show_nat_no_sep [OF sep_not_digit(1)] split: prod.splits)

text \<open>C14: Round trip of the service annotation, in the order of fields that the code reads: external port,
  external protocol, backend port, backend protocol. Services written in this order, separated by
  colons, and joined by commas are announced as exactly these services, in order, each as an
  unavailable endpoint at the pod's address. A service in the order of the comment in the source, which has
  each protocol before its port, is not read this way: unless the protocol happens to be a port number, it
  is refused with the error that the protocol is not a port.\<close>

theorem annotation_round_trip:
  assumes "ss \<noteq> []" and "list_all valid_service ss"
    and "map_of annotations SERVICES_ANNOTATION = Some (join_on CHR '','' (map show_service ss))"
  shows "(discover_services send rt annotations uid addr = (rt', Inr ()) \<longleftrightarrow>
       (\<exists>c. run_all send (rt_sender rt) (map (add_of_service uid addr) ss) = Some c \<and>
            rt' = rt\<lparr>rt_sender := c\<rparr>)) \<and>
     (\<forall>s e. s \<in> set ss \<and> parse_u16 (fst (snd s)) = Inl e \<longrightarrow>
        send_service_from_string send rt (documented_service s) uid addr = (rt, Inl (NotAPort (fst (snd s)) e)))"
proof -
  have "send_service_from_string send rt (documented_service s) uid addr = (rt, Inl (NotAPort (fst (snd s)) e))"
    if "s \<in> set ss" "parse_u16 (fst (snd s)) = Inl e" for s e
    using that assms(2) by (intro documented_service_refused) (simp_all add: list_all_iff)
  then show ?thesis by (simp add: discover_services_ok services_plan_show [OF assms])
qed

theorem annotation_round_trip_witness:
  "\<exists>rt'. discover_services open_channel (runtime_new ''k8s'' [])
       [(SERVICES_ANNOTATION, join_on CHR '',''
           (map show_service [(80, ''http'', 8080, ''http''), (443, ''https'', 65535, ''ssh'')]))]
       ''u'' (V4 10 0 0 1) = (rt', Inr ()) \<and>
     rt_sender rt' =
       [Add ''u'' False 80 ''http'' (SocketAddr (V4 10 0 0 1) 8080) ''http'',
        Add ''u'' False 443 ''https'' (SocketAddr (V4 10 0 0 1) 65535) ''ssh''] \<and>
     (\<exists>e. send_service_from_string open_channel (runtime_new ''k8s'' [])
          (documented_service (80, ''http'', 8080, ''http'')) ''u'' (V4 10 0 0 1) =
        (runtime_new ''k8s'' [], Inl (NotAPort ''http'' e)))"
proof -
  let ?ss = "[(80, ''http'', 8080, ''http''), (443, ''https'', 65535, ''ssh'')] :: service_spec list"
  have ss: "?ss \<noteq> []" "list_all valid_service ?ss"
    by (simp_all add: valid_service_def)
  let ?a = "[(SERVICES_ANNOTATION, join_on CHR '','' (map show_service ?ss))]"
  note trip = annotation_round_trip [OF ss, of ?a open_channel "runtime_new ''k8s'' []" "''u''" "V4 10 0 0 1"]
  obtain e where e: "parse_u16 ''http'' = Inl e" by (simp add: std_eval)
  have "send_service_from_string open_channel (runtime_new ''k8s'' [])
          (documented_service (80, ''http'', 8080, ''http'')) ''u'' (V4 10 0 0 1) =
      (runtime_new ''k8s'' [], Inl (NotAPort ''http'' e))"
    using trip [THEN conjunct2, rule_format, of "(80, ''http'', 8080, ''http'')" e] e by simp
  then show ?thesis
    using trip by (simp add: add_of_service_def runtime_new_def open_channel_def)
qed

text \<open>Bounds of a port. A printed number is accepted as a port exactly when it fits 16 bits,
  and then it is read as itself.\<close>

lemma parse_port_bounds:
  "(\<exists>w. parse_port (show_nat n) = Inr w) = (n < 2 ^ 16) \<and>
   (parse_port (show_nat n) = Inr w \<longrightarrow> unat w = n)"
proof (cases "n < 2 ^ 16")
  case True
  then show ?thesis
    by (auto simp: parse_port_def parse_u16_show unat_of_nat)
next
  case False
  then obtain e where "parse_uint (2 ^ 16 - 1) (show_nat n) = Inl e"
    using parse_uint_show_overflow [of "2 ^ 16 - 1" n] by auto
  with False show ?thesis
    by (simp add: parse_port_def parse_u16_def)
qed

section \<open>Restarts of the watch\<close>

lemma plan_restarted:
  assumes "plan known (Restarted ps) = Some (known', evs)"
  obtains applied gone where "evs = applied @ map Delete gone"
    and "set known' = {uid. \<exists>p \<in> set ps. meta_uid (pod_metadata p) = Some uid}"
    and "set gone = set known - set known'" and "distinct known \<Longrightarrow> distinct gone"
    and "\<And>ev. ev \<in> set applied \<Longrightarrow> \<exists>p \<in> set ps. meta_uid (pod_metadata p) = Some (ev_uid ev) \<and> pod_details p \<noteq> None"
    and "\<And>uid. Delete uid \<in> set applied \<Longrightarrow>
      \<exists>p \<in> set ps. \<exists>name annotations address. pod_details p = Some (uid, name, annotations, address, ''Succeeded'')"
    and "\<And>uid ev. uid \<in> set known \<Longrightarrow>
      \<forall>p \<in> set ps. \<nexists>name annotations address. pod_details p = Some (uid, name, annotations, address, ''Succeeded'') \<Longrightarrow>
      ev \<in> set applied \<Longrightarrow> is_Add ev \<Longrightarrow> ev_uid ev \<noteq> uid"
proof -
  obtain known1 evs1 where
    pp: "pods_plan known [] ps = Some (known1, known', evs1)"
    and evs: "evs = evs1 @ map Delete (filter (\<lambda>uid. uid \<notin> set known') known1)"
    using assms by (auto split: option.splits)
  show ?thesis
  proof (rule that [OF evs])
    show "set known' = {uid. \<exists>p \<in> set ps. meta_uid (pod_metadata p) = Some uid}"
      using pods_plan_current [OF pp] by simp
    show "set (filter (\<lambda>uid. uid \<notin> set known') known1) = set known - set known'"
      using pods_plan_known [OF pp] by auto
    show "distinct known \<Longrightarrow> distinct (filter (\<lambda>uid. uid \<notin> set known') known1)"
      using pods_plan_distinct [OF pp] by simp
  qed (fact pods_plan_source [OF pp] pods_plan_deletes [OF pp] pods_plan_stays [OF pp])+
qed

text \<open>C15: A restart reconciles. After a restart event was handled, the known pods are exactly the
  listed pods. What was sent are the events of the listed pods, followed by exactly one deletion
  for each pod that was known and is not listed, and nothing else. Among the events of the listed pods there is a
  deletion only for a pod that is listed in phase \<^verbatim>\<open>Succeeded\<close>: no other listed pod is deleted.\<close>

theorem restart_reconciles:
  assumes "channel_contract send delivered"
    and "handle_pod_event send rt (Restarted ps) = (rt', Inr ())" and "distinct (known_pod_uids rt)"
  shows "set (known_pod_uids rt') = {uid. \<exists>p \<in> set ps. meta_uid (pod_metadata p) = Some uid} \<and>
    (\<exists>applied gone. delivered (rt_sender rt') = delivered (rt_sender rt) @ applied @ map Delete gone \<and>
       distinct gone \<and> set gone = set (known_pod_uids rt) - set (known_pod_uids rt') \<and>
       (\<forall>ev \<in> set applied. \<exists>p \<in> set ps. meta_uid (pod_metadata p) = Some (ev_uid ev)) \<and>
       (\<forall>uid. Delete uid \<in> set applied \<longrightarrow> (\<exists>p \<in> set ps. \<exists>name annotations address.
          pod_details p = Some (uid, name, annotations, address, ''Succeeded''))))"
proof -
  obtain known evs c where p: "plan (known_pod_uids rt) (Restarted ps) = Some (known, evs)"
      "run_all send (rt_sender rt) evs = Some c" "rt' = rt\<lparr>rt_sender := c, known_pod_uids := known\<rparr>"
    using assms(2) unfolding handle_pod_event_ok by blast
  from p(1) show ?thesis
  proof (rule plan_restarted)
    fix applied gone
    assume r: "evs = applied @ map Delete gone"
      "set known = {uid. \<exists>p \<in> set ps. meta_uid (pod_metadata p) = Some uid}"
      "set gone = set (known_pod_uids rt) - set known" "distinct (known_pod_uids rt) \<Longrightarrow> distinct gone"
      "\<And>ev. ev \<in> set applied \<Longrightarrow> \<exists>p \<in> set ps. meta_uid (pod_metadata p) = Some (ev_uid ev) \<and> pod_details p \<noteq> None"
      "\<And>uid. Delete uid \<in> set applied \<Longrightarrow>
        \<exists>p \<in> set ps. \<exists>name annotations address. pod_details p = Some (uid, name, annotations, address, ''Succeeded'')"
    have "\<exists>p \<in> set ps. meta_uid (pod_metadata p) = Some (ev_uid ev)" if "ev \<in> set applied" for ev
      using r(5) [OF that] by blast
    then show ?thesis
      using channel_run_all [OF assms(1) p(2)] r(2,3) r(4) [OF assms(3)] r(6) p(3)
      by (intro conjI exI [of _ applied] exI [of _ gone]) (auto simp: r(1))
  qed
qed

lemma open_channel_events_contract: "channel_contract open_channel (\<lambda>c. c)"
  by (simp add: channel_contract_def open_channel_def)

theorem restart_reconciles_witness:
  "\<exists>rt'. handle_pod_event open_channel
       \<lparr>rt_name = ''k8s'', rt_sender = [], known_pod_uids = [''a'', ''b'']\<rparr>
       (Restarted [example_pod ''b'' (Some ''10.0.0.1'') [] ''Running'']) = (rt', Inr ()) \<and>
     set (known_pod_uids rt') = {''b''} \<and> rt_sender rt' = [Resume ''b'', Delete ''a''] \<and>
     (\<exists>applied gone. rt_sender rt' = applied @ map Delete gone \<and> set gone = {''a''})"
proof -
  let ?rt = "\<lparr>rt_name = ''k8s'', rt_sender = [], known_pod_uids = [''a'', ''b'']\<rparr> :: endpoint_event list k8s_runtime"
  obtain rt' where r: "handle_pod_event open_channel ?rt
      (Restarted [example_pod ''b'' (Some ''10.0.0.1'') [] ''Running'']) = (rt', Inr ())"
    and s: "rt_sender rt' = [Resume ''b'', Delete ''a'']"
    by (simp add: k8s_eval std_eval example_pod_def)
  have d: "distinct (known_pod_uids ?rt)" by simp
  note reconciled = restart_reconciles [OF open_channel_events_contract r d]
  have known: "set (known_pod_uids rt') = {''b''}"
    using reconciled by (simp add: example_pod_def)
  have "\<exists>applied gone. rt_sender rt' = rt_sender ?rt @ applied @ map Delete gone \<and>
      set gone = set (known_pod_uids ?rt) - set (known_pod_uids rt')"
    using reconciled by blast
  moreover have "set (known_pod_uids ?rt) - {''b''} = {''a''}" by auto
  ultimately have "\<exists>applied gone. rt_sender rt' = applied @ map Delete gone \<and> set gone = {''a''}"
    unfolding known by simp
  with r known s show ?thesis by (intro exI [of _ rt'] conjI)
qed

section \<open>The watch loop\<close>

text \<open>The plan of a whole watch stream.\<close>

fun stream_plan :: "string hash_set \<Rightarrow> pod_event list \<Rightarrow> (string hash_set \<times> endpoint_event list) option" where
  "stream_plan known [] = Some (known, [])"
| "stream_plan known (ev # evs) =
     (case plan known ev of
        None \<Rightarrow> None
      | Some (known', out) \<Rightarrow>
          (case stream_plan known' evs of
             None \<Rightarrow> None
           | Some (known'', out') \<Rightarrow> Some (known'', out @ out')))"

lemma handle_pod_event_result:
  obtains (ok) rt' where "handle_pod_event send rt ev = (rt', Inr ())"
  | (err) rt' e where "handle_pod_event send rt ev = (rt', Inl e)"
  by (cases "handle_pod_event send rt ev"; cases "snd (handle_pod_event send rt ev)") auto

lemma watch_pods_closed:
  "watch_pods send rt (map Inr evs) = (rt', Inl StreamClosed :: 'e run_error + unit) \<longleftrightarrow>
     (\<exists>known out c. stream_plan (known_pod_uids rt) evs = Some (known, out) \<and>
        run_all send (rt_sender rt) out = Some c \<and>
        rt' = rt\<lparr>rt_sender := c, known_pod_uids := known\<rparr>)"
proof (induction evs arbitrary: rt)
  case Nil
  then show ?case by auto
next
  case (Cons ev evs)
  have "watch_pods send rt (map Inr (ev # evs)) = (rt', Inl StreamClosed :: 'e run_error + unit) \<longleftrightarrow>
      (\<exists>rt1. handle_pod_event send rt ev = (rt1, Inr ()) \<and>
             watch_pods send rt1 (map Inr evs) = (rt', Inl StreamClosed :: 'e run_error + unit))"
    by (cases rule: handle_pod_event_result [of send rt ev]) auto
  then show ?case
    by (auto simp: handle_pod_event_ok Cons.IH run_all_append split: option.splits)
qed



section \<open>Pods that a restart hides\<close>

text \<open>The watch events that leave a known pod known: they do not delete it, report it as succeeded or restart
  the watch without it.\<close>

fun stays_listed :: "string \<Rightarrow> pod_event \<Rightarrow> bool" where
  "stays_listed uid (Applied q) \<longleftrightarrow>
     (\<nexists>name annotations address. pod_details q = Some (uid, name, annotations, address, ''Succeeded''))"
| "stays_listed uid (Deleted q) \<longleftrightarrow> meta_uid (pod_metadata q) \<noteq> Some uid"
| "stays_listed uid (Restarted qs) \<longleftrightarrow> (\<exists>q \<in> set qs. meta_uid (pod_metadata q) = Some uid) \<and>
     (\<forall>q \<in> set qs. \<nexists>name annotations address. pod_details q = Some (uid, name, annotations, address, ''Succeeded''))"

lemma plan_stays:
  assumes "plan known ev = Some (known', out)" and "uid \<in> set known" and "stays_listed uid ev"
  shows "uid \<in> set known' \<and> (\<forall>e. e \<in> set out \<and> is_Add e \<longrightarrow> ev_uid e \<noteq> uid)"
proof (cases ev)
  case (Applied q)
  then show ?thesis using assms pod_plan_stays [of known q known' out uid] by (auto split: if_splits)
next
  case (Deleted q)
  then show ?thesis using assms by (auto simp: rust_simps split: option.splits)
next
  case (Restarted qs)
  from assms(1) [unfolded Restarted] show ?thesis
  proof (rule plan_restarted)
    fix applied gone
    assume r: "out = applied @ map Delete gone" "set known' = {uid. \<exists>p \<in> set qs. meta_uid (pod_metadata p) = Some uid}"
      "\<And>uid ev. uid \<in> set known \<Longrightarrow>
        \<forall>p \<in> set qs. \<nexists>name annotations address. pod_details p = Some (uid, name, annotations, address, ''Succeeded'') \<Longrightarrow>
        ev \<in> set applied \<Longrightarrow> is_Add ev \<Longrightarrow> ev_uid ev \<noteq> uid"
    then show ?thesis using assms(2,3) r(3) [of uid] by (auto simp: Restarted)
  qed
qed

lemma stream_plan_stays:
  "stream_plan known evs = Some (known', out) \<Longrightarrow> uid \<in> set known \<Longrightarrow> list_all (stays_listed uid) evs \<Longrightarrow>
     e \<in> set out \<Longrightarrow> is_Add e \<Longrightarrow> ev_uid e \<noteq> uid"
proof (induction evs arbitrary: known out)
  case (Cons ev evs)
  then obtain known1 out1 out2 where
    p: "plan known ev = Some (known1, out1)" and r: "stream_plan known1 evs = Some (known', out2)" and out: "out = out1 @ out2"
    by (auto split: option.splits)
  have "uid \<in> set known1 \<and> (\<forall>e. e \<in> set out1 \<and> is_Add e \<longrightarrow> ev_uid e \<noteq> uid)"
    using plan_stays [OF p Cons.prems(2)] Cons.prems(3) by simp
  then show ?case using Cons.IH [OF r] Cons.prems(3-5) by (auto simp: out)
qed simp

text \<open>C33: A restart hides incomplete pods. A pod that a restart lists while one of the fields the
  handler needs is missing (its address, as for a pod that is still being started) becomes known
  without its services being announced. Whatever watch events follow, and in particular when the pod is applied
  later, complete and running, its services are still not announced, as long as the pod is not
  deleted, reported as succeeded or missing from a later restart.\<close>

theorem restart_hides_incomplete_pods:
  assumes "channel_contract send delivered"
    and "handle_pod_event send rt (Restarted ps) = (rt1, Inr ())"
    and "p \<in> set ps" and "meta_uid (pod_metadata p) = Some uid"
    and "\<forall>q. q \<in> set ps \<and> meta_uid (pod_metadata q) = Some uid \<longrightarrow> pod_details q = None"
    and "list_all (stays_listed uid) evs"
    and "watch_pods send rt1 (map Inr evs) = (rt2, Inl StreamClosed :: 'e run_error + unit)"
  shows "\<exists>sent. delivered (rt_sender rt2) = delivered (rt_sender rt) @ sent \<and>
     (\<forall>ev. ev \<in> set sent \<and> is_Add ev \<longrightarrow> ev_uid ev \<noteq> uid)"
proof -
  obtain known out c where pl: "plan (known_pod_uids rt) (Restarted ps) = Some (known, out)"
      "run_all send (rt_sender rt) out = Some c" "rt1 = rt\<lparr>rt_sender := c, known_pod_uids := known\<rparr>"
    using assms(2) unfolding handle_pod_event_ok by blast
  have "uid \<in> set known \<and> (\<forall>ev. ev \<in> set out \<and> is_Add ev \<longrightarrow> ev_uid ev \<noteq> uid)"
    using pl(1)
  proof (rule plan_restarted)
    fix applied gone
    assume "out = applied @ map Delete gone" "set known = {uid. \<exists>p \<in> set ps. meta_uid (pod_metadata p) = Some uid}"
      "\<And>ev. ev \<in> set applied \<Longrightarrow> \<exists>p \<in> set ps. meta_uid (pod_metadata p) = Some (ev_uid ev) \<and> pod_details p \<noteq> None"
    then show ?thesis using assms(3-5) by fastforce
  qed
  moreover obtain known2 out2 c2 where p2: "stream_plan (known_pod_uids rt1) evs = Some (known2, out2)"
      "run_all send (rt_sender rt1) out2 = Some c2" "rt2 = rt1\<lparr>rt_sender := c2, known_pod_uids := known2\<rparr>"
    using assms(7) unfolding watch_pods_closed by blast
  moreover have "delivered (rt_sender rt2) = delivered (rt_sender rt) @ out @ out2"
    using channel_run_all [OF assms(1) pl(2)] channel_run_all [OF assms(1) p2(2)] pl(3) p2(3) by simp
  ultimately show ?thesis
    using stream_plan_stays [OF p2(1) _ assms(6)] pl(3) by (intro exI [of _ "out @ out2"]) auto
qed

text \<open>The witness is the start of the proxy while a pod is pending: the first watch event is a
  restart that lists the pod without an address. Its later \<^verbatim>\<open>Running\<close> event announces
  nothing, while without the restart the same event announces the service.\<close>

theorem restart_hides_incomplete_pods_witness:
  "\<exists>rt1 rt2 rt3 evs.
     handle_pod_event open_channel (runtime_new ''k8s'' [])
       (Restarted [example_pod ''u'' None ''80:http:8080:http'' ''Pending'']) = (rt1, Inr ()) \<and>
     handle_pod_event open_channel rt1
       (Applied (example_pod ''u'' (Some ''10.0.0.1'') ''80:http:8080:http'' ''Running'')) = (rt2, Inr ()) \<and>
     rt_sender rt2 = evs \<and> evs = [Resume ''u''] \<and> \<not> is_Add (hd evs) \<and>
     handle_pod_event open_channel (runtime_new ''k8s'' [])
       (Applied (example_pod ''u'' (Some ''10.0.0.1'') ''80:http:8080:http'' ''Running'')) = (rt3, Inr ()) \<and>
     rt_sender rt3 = [Add ''u'' False 80 ''http'' (SocketAddr (V4 10 0 0 1) 8080) ''http'', Resume ''u'']"
proof -
  let ?p = "example_pod ''u'' None ''80:http:8080:http'' ''Pending''"
  let ?q = "example_pod ''u'' (Some ''10.0.0.1'') ''80:http:8080:http'' ''Running''"
  obtain rt1 rt2 rt3 where
    1: "handle_pod_event open_channel (runtime_new ''k8s'' []) (Restarted [?p]) = (rt1, Inr ())"
    and 2: "handle_pod_event open_channel rt1 (Applied ?q) = (rt2, Inr ())"
    and 3: "rt_sender rt1 = []" "rt_sender rt2 = [Resume ''u'']"
    and 4: "handle_pod_event open_channel (runtime_new ''k8s'' []) (Applied ?q) = (rt3, Inr ())"
      "rt_sender rt3 = [Add ''u'' False 80 ''http'' (SocketAddr (V4 10 0 0 1) 8080) ''http'', Resume ''u'']"
    by (simp add: k8s_eval std_eval example_pod_def)
  have w: "watch_pods open_channel rt1 (map Inr [Applied ?q]) = (rt2, Inl StreamClosed :: unit run_error + unit)"
    by (simp add: 2 del: handle_pod_event.simps)
  have u: "meta_uid (pod_metadata ?p) = Some ''u''" "list_all (stays_listed ''u'') [Applied ?q]"
    "\<forall>r. r \<in> set [?p] \<and> meta_uid (pod_metadata r) = Some ''u'' \<longrightarrow> pod_details r = None"
    by (simp_all add: example_pod_def pod_details_def)
  from restart_hides_incomplete_pods [OF open_channel_events_contract 1 _ u(1,3,2) w]
  have "\<not> is_Add (hd (rt_sender rt2))"
    using 3 by (auto simp: runtime_new_def)
  then show ?thesis
    using 1 2 3 4 by auto
qed

section \<open>Malformed annotations\<close>

lemma services_plan_None:
  "map_of annotations SERVICES_ANNOTATION = Some s \<Longrightarrow> bad \<in> set (split_on CHR '','' s) \<Longrightarrow>
     service_event uid addr bad = None \<Longrightarrow> services_plan uid addr annotations = None"
proof -
  have "those (map f xs) = None" if "x \<in> set xs" "f x = None" for f :: "string \<Rightarrow> endpoint_event option" and x xs
    using that by (induction xs) (auto split: option.split)
  then show "map_of annotations SERVICES_ANNOTATION = Some s \<Longrightarrow> bad \<in> set (split_on CHR '','' s) \<Longrightarrow>
     service_event uid addr bad = None \<Longrightarrow> ?thesis"
    by (simp add: services_plan_def)
qed

lemma send_services_known: "send_services send rt uid addr ss = (rt', r) \<Longrightarrow> known_pod_uids rt' = known_pod_uids rt"
proof (induction ss arbitrary: rt)
  case Nil
  then show ?case by simp
next
  case (Cons s ss)
  have one: "known_pod_uids rt1 = known_pod_uids rt0"
    if "send_service_from_string send rt0 s uid addr = (rt1, q)" for rt0 rt1 :: "'a k8s_runtime" and q
    using that by (auto simp: send_service_from_string_def k8s_send_def
        split: list.splits sum.splits option.splits)
  show ?case
    using Cons.prems Cons.IH one by (auto split: prod.splits sum.splits)
qed

text \<open>C32: One malformed service stops the task. If the annotation of a pod seen for the first time
  has a service that cannot be read, the watch ends with an error whatever else it would have
  yielded, for every channel; the pod is already recorded as known at that point.\<close>

theorem malformed_service_stops_discovery:
  assumes "pod_details p = Some (uid, name, annotations, address, phase)"
    and "parse_ip address = Some addr" and "uid \<notin> set (known_pod_uids rt)"
    and "map_of annotations SERVICES_ANNOTATION = Some s" and "bad \<in> set (split_on CHR '','' s)"
    and "service_event uid addr bad = None"
  shows "\<exists>rt' e. watch_pods send rt (Inr (Applied p) # rest) = (rt', Inl (PodError e)) \<and>
     set (known_pod_uids rt') = insert uid (set (known_pod_uids rt))"
proof -
  let ?rt1 = "rt\<lparr>known_pod_uids := fst (hs_insert uid (known_pod_uids rt))\<rparr>"
  obtain rt' r where d: "discover_services send ?rt1 annotations uid addr = (rt', r)"
    by fastforce
  have "r \<noteq> Inr ()"
    using d discover_services_ok [of send ?rt1 annotations uid addr rt'] services_plan_None [OF assms(4-6)]
    by auto
  then obtain e where e: "r = Inl e" by (cases r) auto
  have "known_pod_uids rt' = known_pod_uids ?rt1"
    using d assms(4) send_services_known [of send ?rt1] by (auto simp: discover_services_def)
  moreover have "handle_pod_event send rt (Applied p) = (rt', Inl e)"
    using assms(1-3) d e pod_details_uid [OF assms(1)]
    by (simp add: apply_pod_def hs_insert_def)
  ultimately show ?thesis
    by (auto simp: rust_simps)
qed

theorem malformed_service_stops_discovery_witness:
  "\<exists>rt' e. watch_pods open_channel (runtime_new ''k8s'' [])
       (Inr (Applied (example_pod ''u'' (Some ''10.0.0.1'') ''80:http:8080:http,http:80:http:80'' ''Running'')) #
        [Inr (Applied (example_pod ''v'' (Some ''10.0.0.2'') ''80:http:8080:http'' ''Running''))]) =
     (rt', Inl (PodError e)) \<and> set (known_pod_uids rt') = {''u''}"
proof -
  let ?s = "''80:http:8080:http,http:80:http:80''"
  have d: "pod_details (example_pod ''u'' (Some ''10.0.0.1'') ?s ''Running'') =
      Some (''u'', ''web'', [(SERVICES_ANNOTATION, ?s)], ''10.0.0.1'', ''Running'')"
    by (simp add: pod_details_def example_pod_def)
  have a: "parse_ip ''10.0.0.1'' = Some (V4 10 0 0 1)"
    by (simp add: std_eval)
  have k: "''u'' \<notin> set (known_pod_uids (runtime_new ''k8s'' []))"
    by (simp add: runtime_new_def)
  have m: "map_of [(SERVICES_ANNOTATION, ?s)] SERVICES_ANNOTATION = Some ?s"
    by simp
  have b: "''http:80:http:80'' \<in> set (split_on CHR '','' ?s)"
    by simp
  have e: "service_event ''u'' (V4 10 0 0 1) ''http:80:http:80'' = None"
    by (simp add: service_event_def std_eval)
  have u: "insert ''u'' (set (known_pod_uids (runtime_new ''k8s'' []))) = {''u''}"
    by (simp add: runtime_new_def)
  show ?thesis
    using malformed_service_stops_discovery [OF d a k m b e, of open_channel] unfolding u by blast
qed

end
