(* ===== verification/Discovery_Pipeline.thy ===== *)
theory Discovery_Pipeline
  imports Service_Selection Kubernetes_Properties
begin

text \<open>
  The path from the Kubernetes discovery through the channel of its listener task into the
  service manager. The events of all tasks reach the manager in some interleaving; \<open>events_of\<close>
  is what one task contributed to it. The lemmas carry the plan of a watch stream over to the
  directory that the manager represents, and from there to the endpoint selection.
\<close>

section \<open>Interleaved tasks\<close>

definition events_of :: "string \<Rightarrow> (string \<times> endpoint_event) list \<Rightarrow> endpoint_event list" where
  "events_of name es = map snd (filter (\<lambda>fe. fst fe = name) es)"

abbreviation dir_run :: "(string \<times> endpoint_event) list \<Rightarrow> directory \<Rightarrow> directory" where
  "dir_run es d \<equiv> fold (\<lambda>fe. dir_step (fst fe) (snd fe)) es d"

fun own_step :: "endpoint_event \<Rightarrow> string set \<Rightarrow> string set" where
  "own_step (Add uid _ _ _ _ _) U = insert uid U"
| "own_step (Delete uid) U = U - {uid}"
| "own_step _ U = U"

lemma owned_own_step: "owned name (dir_step name ev d) = own_step ev (owned name d)"
  by (cases ev) (simp_all only: owned_step own_step.simps)

lemma owned_fold: "owned name (fold (dir_step name) evs d) = fold own_step evs (owned name d)"
  by (induction evs arbitrary: d) (simp_all add: owned_own_step)

lemma owned_run: "owned name (dir_run es d) = fold own_step (events_of name es) (owned name d)"
proof (induction es arbitrary: d)
  case Nil
  then show ?case by (simp add: events_of_def)
next
  case (Cons fe es)
  then show ?case
    by (cases "fst fe = name") (auto simp: events_of_def owned_own_step owned_other_task)
qed

lemma owned_stream_plan:
  "stream_plan known evs = Some (known', out) \<Longrightarrow> owned name d \<subseteq> set known \<Longrightarrow>
     owned name (fold (dir_step name) out d) \<subseteq> set known'"
proof (induction evs arbitrary: known out d)
  case Nil
  then show ?case by simp
next
  case (Cons ev evs)
  then obtain known1 out1 out2 where
    p: "plan known ev = Some (known1, out1)" and r: "stream_plan known1 evs = Some (known', out2)"
    and out: "out = out1 @ out2"
    by (auto split: option.splits)
  show ?case
    using Cons.IH [OF r owned_plan [OF p Cons.prems(2)]] by (simp add: out)
qed

lemma endpoint_at_step_cong:
  "\<forall>p. endpoint_at d p i = endpoint_at d' p i \<Longrightarrow> endpoint_at (dir_step name ev d) p i = endpoint_at (dir_step name ev d') p i"
  by (cases ev) (simp_all only: endpoint_at_step)

lemma endpoint_at_run_own:
  "endpoint_at (dir_run es d) p (endpoint_id_new name uid) =
     endpoint_at (fold (dir_step name) (events_of name es) d) p (endpoint_id_new name uid)"
proof -
  let ?i = "endpoint_id_new name uid"
  have "\<forall>p. endpoint_at (dir_run es d) p ?i =
      endpoint_at (fold (dir_step name) (events_of name es) d') p ?i"
    if "\<forall>p. endpoint_at d p ?i = endpoint_at d' p ?i" for d d'
    using that
  proof (induction es arbitrary: d d')
    case Nil
    then show ?case by (simp add: events_of_def)
  next
    case (Cons fe es)
    show ?case
    proof (cases "fst fe = name")
      case True
      with Cons.IH [of "dir_step name (snd fe) d" "dir_step name (snd fe) d'"] endpoint_at_step_cong [OF Cons.prems]
      show ?thesis by (simp add: events_of_def)
    next
      case False
      then have "endpoint_at (dir_step (fst fe) (snd fe) d) p ?i = endpoint_at d p ?i" for p
        by (intro endpoint_at_other_task) (simp add: endpoint_id_new_def)
      with Cons.IH [of "dir_step (fst fe) (snd fe) d" d'] Cons.prems False
      show ?thesis by (simp add: events_of_def)
    qed
  qed
  then show ?thesis by blast
qed

lemma run_all_not_refused:
  "\<forall>c e. send c e \<noteq> None \<Longrightarrow> sm_inv sm \<Longrightarrow> \<exists>sm'. run_all (try_event send) sm es = Some sm'"
proof (induction es arbitrary: sm)
  case Nil
  then show ?case by simp
next
  case (Cons fe es)
  obtain sm1 w where e: "process_event send sm (fst fe) (snd fe) = (sm1, Done w)"
    using process_event_not_refused [OF sm_wf_hm_wf [OF sm_inv_wf [OF Cons.prems(2)]]] Cons.prems(1)
    by blast
  then have "try_event send sm fe = Some sm1"
    by (simp add: try_event_def)
  then show ?case
    using Cons.IH [OF Cons.prems(1) process_event_inv [OF Cons.prems(2) e]] by simp
qed

section \<open>Services of a pod in the directory\<close>

definition xport_of :: "service_spec \<Rightarrow> u16" where
  "xport_of s = of_nat (fst s)"

definition backend_of :: "ip_addr \<Rightarrow> service_spec \<Rightarrow> socket_addr \<times> string" where
  "backend_of addr s = (case s of (_, _, bport, bproto) \<Rightarrow> (SocketAddr addr (of_nat bport), bproto))"

lemma add_step:
  "dir_step name (add_of_service uid addr s) d =
     dir_add (endpoint_id_new name uid) (endpoint_new False (fst (backend_of addr s)) (snd (backend_of addr s)))
       (xport_of s) (fst (snd s)) d"
  by (cases s) (simp add: add_of_service_def backend_of_def xport_of_def)

lemma adds_other_port:
  "p \<notin> xport_of ` set ss \<Longrightarrow> fold (dir_step name) (map (add_of_service uid addr) ss) d p = d p"
  by (induction ss arbitrary: d) (simp_all add: add_step dir_add_def)

lemma adds_fresh_port:
  assumes "distinct (map xport_of ss)" and "s \<in> set ss" and "d (xport_of s) = None"
  shows "fold (dir_step name) (map (add_of_service uid addr) ss) d (xport_of s) =
     Some (fst (snd s), [endpoint_id_new name uid \<mapsto>
       endpoint_new False (fst (backend_of addr s)) (snd (backend_of addr s))])"
  using assms
proof (induction ss arbitrary: d)
  case Nil
  then show ?case by simp
next
  case (Cons t ss)
  show ?case
  proof (cases "t = s")
    case True
    then have "xport_of s \<notin> xport_of ` set ss" using Cons.prems(1) by auto
    then show ?thesis
      using True Cons.prems(3) by (simp add: adds_other_port add_step dir_add_def fun_eq_iff)
  next
    case False
    then have "s \<in> set ss" "xport_of s \<noteq> xport_of t"
      using Cons.prems(1,2) by (auto simp: image_iff)
    moreover from this have "dir_step name (add_of_service uid addr t) d (xport_of s) = None"
      using Cons.prems(3) by (simp add: add_step dir_add_def)
    ultimately show ?thesis
      using Cons.IH [of "dir_step name (add_of_service uid addr t) d"] Cons.prems(1) by simp
  qed
qed

lemma xports_distinct:
  assumes "list_all valid_service ss" and "distinct (map fst ss)"
  shows "distinct (map xport_of ss)"
proof -
  have "x < 2 ^ 16" if "x \<in> set (map fst ss)" for x
    using that assms(1) by (auto simp: list_all_iff valid_service_def)
  then have "inj_on (of_nat :: nat \<Rightarrow> u16) (set (map fst ss))"
    by (intro inj_onI) (simp add: word_of_nat_eq_iff take_bit_nat_eq_self)
  then have "distinct (map of_nat (map fst ss) :: u16 list)"
    using assms(2) by (simp only: distinct_map)
  then show ?thesis
    by (simp add: xport_of_def [abs_def] comp_def)
qed

lemma single_endpoint_selected:
  assumes "sm_inv sm" and "directory_of (port_service_map sm) p = Some (proto, [i \<mapsto> e])"
    and "is_available e"
  shows "get_endpoint_for sm p index = Done (Some (ep_address e, ep_protocol e))"
proof -
  obtain s where s: "hm_get (port_service_map sm) p = Some s" "hm_get (svc_endpoints s) = [i \<mapsto> e]"
    using assms(2) by (auto simp: directory_of_def)
  have wf: "hm_wf (svc_endpoints s)"
    using s(1) assms(1) psm_wf_get(2) by (auto simp: sm_inv_def sm_wf_def)
  have "set (svc_endpoints s) = {(i, e)}"
    unfolding set_eq_iff using hm_get_in_set [OF wf, symmetric] s(2) by (auto simp: split_paired_all)
  moreover have "distinct (svc_endpoints s)"
    using wf by (auto simp: hm_wf_def distinct_map)
  ultimately have "svc_endpoints s = [(i, e)]"
    by (cases "svc_endpoints s") (auto simp: subset_singleton_iff)
  then show ?thesis
    using s(1) assms(3) by (simp add: get_endpoint_for_def hm_values_def Let_def)
qed

lemma running_pod_plan:
  assumes "pod_details p = Some (uid, pname, annotations, address, ''Running'')"
    and "parse_ip address = Some addr" and "uid \<notin> set known"
    and "ss \<noteq> []" and "list_all valid_service ss"
    and "map_of annotations SERVICES_ANNOTATION = Some (join_on CHR '','' (map show_service ss))"
  shows "\<exists>known'. plan known (Applied p) =
     Some (known', map (add_of_service uid addr) ss @ [Resume uid])"
  using assms(1-3) services_plan_show [OF assms(4-6)] pod_details_uid [OF assms(1)]
  by (simp add: pod_plan_def phase_plan_def)

text \<open>The pod in the directory once its events are processed.\<close>

lemma running_pod_directory:
  assumes "sm_inv sm" and "list_all valid_service ss" and "distinct (map fst ss)"
    and "run_all (try_event send) sm
      (map (Pair name) (map (add_of_service uid addr) ss @ [Resume uid])) = Some sm'"
    and "s \<in> set ss" and "hm_get (port_service_map sm) (xport_of s) = None"
  shows "directory_of (port_service_map sm') (xport_of s) =
      Some (fst (snd s), [endpoint_id_new name uid \<mapsto>
        endpoint_new True (fst (backend_of addr s)) (snd (backend_of addr s))])"
    and "get_endpoint_for sm' (xport_of s) index = Done (Some (backend_of addr s))"
proof -
  let ?d = "directory_of (port_service_map sm)" and ?id = "endpoint_id_new name uid"
  have inv: "sm_inv sm'" using sm_sim.run_inv [OF assms(1,4)] .
  have dir: "directory_of (port_service_map sm') =
      dir_flag True ?id (fold (dir_step name) (map (add_of_service uid addr) ss) ?d)"
    using sm_sim.run_abs [OF assms(1,4)] by (simp add: fold_map comp_def)
  have "?d (xport_of s) = None" using assms(6) by (simp add: directory_of_def)
  from adds_fresh_port [of ss s ?d, OF xports_distinct [OF assms(2,3)] assms(5) this]
  show d: "directory_of (port_service_map sm') (xport_of s) =
      Some (fst (snd s), [?id \<mapsto> endpoint_new True (fst (backend_of addr s)) (snd (backend_of addr s))])"
    unfolding dir by (simp add: dir_flag_def endpoint_new_def)
  from single_endpoint_selected [OF inv this]
  show "get_endpoint_for sm' (xport_of s) index = Done (Some (backend_of addr s))"
    by (simp add: endpoint_new_def)
qed

text \<open>The listener of port events.\<close>

lemma run_all_in_sync:
  "channel_contract send delivered \<Longrightarrow> sm_inv sm \<Longrightarrow> in_sync delivered sm \<Longrightarrow>
     run_all (try_event send) sm es = Some sm' \<Longrightarrow> in_sync delivered sm'"
proof (induction es arbitrary: sm)
  case (Cons fe es)
  then obtain sm1 w where e: "process_event send sm (fst fe) (snd fe) = (sm1, Done w)"
      "try_event send sm fe = Some sm1" "run_all (try_event send) sm1 es = Some sm'"
    by (auto simp: try_event_Some split: option.splits)
  show ?case
    using Cons.IH [OF Cons.prems(1) process_event_inv [OF Cons.prems(2) e(1)] _ e(3)]
      process_event_in_sync [OF Cons.prems(1) sm_wf_hm_wf [OF sm_inv_wf [OF Cons.prems(2)]] Cons.prems(3) e(1)]
    by blast
qed simp

lemma replay_announced:
  "run_all replay_step m es = Some m' \<Longrightarrow> m' p = Some proto \<Longrightarrow> m p = Some proto \<or> Open p proto \<in> set es"
proof (induction es arbitrary: m)
  case (Cons e es)
  then obtain m1 where m1: "replay_step m e = Some m1" "run_all replay_step m1 es = Some m'"
    by (auto split: option.splits)
  from Cons.IH [OF m1(2) Cons.prems(2)] m1(1) show ?case
    by (cases e) (auto split: if_splits)
qed simp

end
