(* ===== verification/Lock_Discipline.thy ===== *)
theory Lock_Discipline
  imports Prelude "HOL-Library.Sublist"
begin

text \<open>
  Tasks that share fair read-write locks and one bounded channel, as the tasks of the proxy do. A
  task runs a program of lock and channel actions; task 0 is the one that receives from the
  channel. The locks are those of tokio: requests are served in the order in which they were made,
  a reader waits behind a writer that asked before it. A panic unwinds the task and drops the guards
  it holds, innermost first; a panic of the receiving task closes the channel, and sending
  then fails.

  Which programs the tasks run is a parameter. The locale \<open>lock_discipline\<close> has the conditions
  on these programs under which the tasks never block each other forever.
\<close>

section \<open>Programs\<close>

datatype mode = Read | Write

datatype ('l, 'e) action = Acquire 'l mode | Await 'l mode | Release 'l mode | Send 'e

text \<open>The locks that a task holds when the given program is what remains to be done: those that it
  still releases without acquiring them first.\<close>

fun guards :: "('l, 'e) action list \<Rightarrow> ('l \<times> mode) list" where
  "guards [] = []"
| "guards (Acquire l m # p) = remove1 (l, m) (guards p)"
| "guards (Await l m # p) = remove1 (l, m) (guards p)"
| "guards (Release l m # p) = (l, m) # guards p"
| "guards (Send e # p) = guards p"

definition drop_guards :: "('l \<times> mode) list \<Rightarrow> ('l, 'e) action list" where
  "drop_guards gs = map (\<lambda>(l, m). Release l m) gs"

definition unwind :: "('l, 'e) action list \<Rightarrow> ('l, 'e) action list" where
  "unwind p = drop_guards (guards p)"

fun sends_of :: "('l, 'e) action list \<Rightarrow> 'e list" where
  "sends_of [] = []"
| "sends_of (Send e # p) = e # sends_of p"
| "sends_of (a # p) = sends_of p"

text \<open>A task with \<open>q\<close> left to do is in the middle of \<open>p\<close>: it has done the first action and not yet the last.\<close>

definition inside :: "('l, 'e) action list \<Rightarrow> ('l, 'e) action list \<Rightarrow> bool" where
  "inside q p \<longleftrightarrow> q \<noteq> [] \<and> strict_suffix q p"

section \<open>The system\<close>

record ('l, 'e) system =
  programs :: "('l, 'e) action list list"
  held :: "'l \<Rightarrow> (nat \<times> mode) list"
  waiting :: "'l \<Rightarrow> (nat \<times> mode) list"
  queue :: "'e list"
  closed :: bool

definition system_new :: "nat \<Rightarrow> ('l, 'e) system" where
  "system_new n = \<lparr>programs = replicate n [], held = (\<lambda>_. []), waiting = (\<lambda>_. []), queue = [], closed = False\<rparr>"

fun compatible :: "mode \<Rightarrow> (nat \<times> mode) list \<Rightarrow> bool" where
  "compatible Write hs = (hs = [])"
| "compatible Read hs = list_all (\<lambda>h. snd h = Read) hs"

definition task_of :: "('l, 'e) system \<Rightarrow> nat \<Rightarrow> ('l, 'e) action list" where
  "task_of s t = (if t < length (programs s) then programs s ! t else [])"

definition set_task :: "nat \<Rightarrow> ('l, 'e) action list \<Rightarrow> ('l, 'e) system \<Rightarrow> ('l, 'e) system" where
  "set_task t p s = s\<lparr>programs := (programs s)[t := p]\<rparr>"

text \<open>The steps that tasks in the middle of an operation take, and the receiving of a message.\<close>

inductive progress ::
    "nat \<Rightarrow> ('e \<Rightarrow> ('l, 'e) action list \<Rightarrow> bool) \<Rightarrow> ('l, 'e) system \<Rightarrow> ('l, 'e) system \<Rightarrow> bool"
  for cap :: nat and handler :: "'e \<Rightarrow> ('l, 'e) action list \<Rightarrow> bool" where
  request: "task_of s t = Acquire l m # p \<Longrightarrow>
     progress cap handler s (set_task t (Await l m # p)
       (s\<lparr>waiting := (waiting s)(l := waiting s l @ [(t, m)])\<rparr>))"
| grant: "task_of s t = Await l m # p \<Longrightarrow> waiting s l = (t, m) # ws \<Longrightarrow> compatible m (held s l) \<Longrightarrow>
     progress cap handler s (set_task t p
       (s\<lparr>waiting := (waiting s)(l := ws), held := (held s)(l := (t, m) # held s l)\<rparr>))"
| release: "task_of s t = Release l m # p \<Longrightarrow>
     progress cap handler s (set_task t p
       (s\<lparr>held := (held s)(l := remove1 (t, m) (held s l))\<rparr>))"
| send: "task_of s t = Send e # p \<Longrightarrow> \<not> closed s \<Longrightarrow> length (queue s) < cap \<Longrightarrow>
     progress cap handler s (set_task t p (s\<lparr>queue := queue s @ [e]\<rparr>))"
| send_fails: "task_of s t = Send e # p \<Longrightarrow> closed s \<Longrightarrow> progress cap handler s (set_task t (unwind p) s)"
| receive: "task_of s 0 = [] \<Longrightarrow> queue s = e # q \<Longrightarrow> \<not> closed s \<Longrightarrow> handler e p \<Longrightarrow>
     progress cap handler s (set_task 0 p (s\<lparr>queue := q\<rparr>))"

text \<open>What happens from outside: an idle task starts an operation, or a running one panics.\<close>

inductive environment ::
    "(('l, 'e) action list \<Rightarrow> bool) \<Rightarrow> ('l, 'e) system \<Rightarrow> ('l, 'e) system \<Rightarrow> bool"
  for operation :: "('l, 'e) action list \<Rightarrow> bool" where
  start: "t < length (programs s) \<Longrightarrow> t \<noteq> 0 \<Longrightarrow> task_of s t = [] \<Longrightarrow> operation p \<Longrightarrow> environment operation s (set_task t p s)"
| panic: "task_of s t = p \<Longrightarrow> t \<noteq> 0 \<Longrightarrow> \<forall>l m q. p \<noteq> Await l m # q \<Longrightarrow>
     environment operation s (set_task t (unwind p) s)"
| receiver_panic: "task_of s 0 = p \<Longrightarrow> \<forall>l m q. p \<noteq> Await l m # q \<Longrightarrow>
     environment operation s (set_task 0 (unwind p) (s\<lparr>queue := [], closed := True\<rparr>))"

inductive reachable ::
    "nat \<Rightarrow> ('e \<Rightarrow> ('l, 'e) action list \<Rightarrow> bool) \<Rightarrow> (('l, 'e) action list \<Rightarrow> bool) \<Rightarrow> ('l, 'e) system \<Rightarrow> bool"
  for cap :: nat and handler :: "'e \<Rightarrow> ('l, 'e) action list \<Rightarrow> bool"
    and operation :: "('l, 'e) action list \<Rightarrow> bool" where
  initial: "0 < n \<Longrightarrow> reachable cap handler operation (system_new n)"
| advance: "reachable cap handler operation s \<Longrightarrow> progress cap handler s s' \<Longrightarrow>
     reachable cap handler operation s'"
| intrude: "reachable cap handler operation s \<Longrightarrow> environment operation s s' \<Longrightarrow>
     reachable cap handler operation s'"

text \<open>Nothing is running, no lock is held or waited for, and no message is left.\<close>

definition quiescent :: "('l, 'e) system \<Rightarrow> bool" where
  "quiescent s \<longleftrightarrow> list_all (\<lambda>p. p = []) (programs s) \<and>
     (\<forall>l. held s l = [] \<and> waiting s l = []) \<and> queue s = []"

section \<open>The discipline\<close>

text \<open>Locks have ranks and the channel has one, and a task waits only for what ranks above all it
  holds. Every guard is dropped, and a lock is never acquired twice.\<close>

fun disciplined :: "('l \<Rightarrow> nat) \<Rightarrow> nat \<Rightarrow> ('l, 'e) action list \<Rightarrow> bool" where
  "disciplined rank c [] = True"
| "disciplined rank c (Acquire l m # p) \<longleftrightarrow> (l, m) \<in> set (guards p) \<and>
     list_all (\<lambda>g. rank (fst g) < rank l) (remove1 (l, m) (guards p)) \<and> disciplined rank c p"
| "disciplined rank c (Await l m # p) \<longleftrightarrow> False"
| "disciplined rank c (Release l m # p) \<longleftrightarrow> l \<notin> fst ` set (guards p) \<and> disciplined rank c p"
| "disciplined rank c (Send e # p) \<longleftrightarrow> list_all (\<lambda>g. rank (fst g) < c) (guards p) \<and> disciplined rank c p"

text \<open>The receiving task waits only for locks above the channel, and never sends.\<close>

definition receiver_action :: "('l \<Rightarrow> nat) \<Rightarrow> nat \<Rightarrow> ('l, 'e) action \<Rightarrow> bool" where
  "receiver_action rank c a \<longleftrightarrow>
     (case a of Acquire l m \<Rightarrow> c < rank l | Await l m \<Rightarrow> c < rank l | Release l m \<Rightarrow> True | Send e \<Rightarrow> False)"

text \<open>How many steps a program can still cause; a message counts for its handling.\<close>

fun weight :: "nat \<Rightarrow> ('l, 'e) action \<Rightarrow> nat" where
  "weight b (Acquire l m) = 2"
| "weight b (Await l m) = 1"
| "weight b (Release l m) = 1"
| "weight b (Send e) = b + 2"

definition work :: "nat \<Rightarrow> ('l, 'e) action list \<Rightarrow> nat" where
  "work b p = sum_list (map (weight b) p)"

definition system_work :: "nat \<Rightarrow> ('l, 'e) system \<Rightarrow> nat" where
  "system_work b s = sum_list (map (work b) (programs s)) + (b + 1) * length (queue s)"

fun settle :: "('l, 'e) action list \<Rightarrow> ('l, 'e) action list" where
  "settle (Await l m # p) = Acquire l m # p"
| "settle p = p"

section \<open>Programs: lemmas\<close>

lemma guards_drop_guards [simp]: "guards (drop_guards gs) = gs"
  by (induction gs) (auto simp: drop_guards_def)

lemma guards_settle [simp]: "guards (settle p) = guards p"
  by (cases p rule: settle.cases) auto

lemma guards_sends [simp]: "guards (map (\<lambda>x. Send (f x)) es @ p) = guards p"
  by (induction es) auto

lemma guards_kept:
  "(l, m) \<in> set (guards q) \<Longrightarrow> Acquire l m \<notin> set p \<Longrightarrow> Await l m \<notin> set p \<Longrightarrow> (l, m) \<in> set (guards (p @ q))"
  by (induction p rule: guards.induct) auto

text \<open>In the middle of a program that takes a lock first and releases it last, the lock is held.\<close>

lemma inside_guarded:
  assumes "inside q p" and "p = Acquire l m # body @ [Release l m]" and "{Acquire l m, Await l m} \<inter> set body = {}"
  shows "(l, m) \<in> set (guards q)"
proof -
  have "suffix q (body @ [Release l m])" "q \<noteq> []"
    using assms(1,2) by (auto simp: inside_def strict_suffix_def suffix_Cons)
  then obtain q' where q': "q = q' @ [Release l m]" "suffix q' body" by (auto simp: suffix_snoc)
  then have "set q' \<subseteq> set body" using set_mono_suffix by blast
  with assms(3) have "Acquire l m \<notin> set q'" "Await l m \<notin> set q'" by auto
  then show ?thesis unfolding q'(1) by (intro guards_kept) simp_all
qed

lemma disciplined_sends [simp]:
  "disciplined rank c (map (\<lambda>x. Send (f x)) es @ p) \<longleftrightarrow>
     (es \<noteq> [] \<longrightarrow> list_all (\<lambda>g. rank (fst g) < c) (guards p)) \<and> disciplined rank c p"
  by (induction es) auto

lemma sends_of_sends [simp]: "sends_of (map (\<lambda>x. Send (f x)) es @ p) = map f es @ sends_of p"
  by (induction es) auto

lemma disciplined_guards_distinct:
  "disciplined rank c p \<Longrightarrow> distinct (map fst (guards p))"
proof (induction p rule: guards.induct)
  case (2 l m p)
  then show ?case
    by (simp add: distinct_map distinct_remove1) (meson Diff_subset inj_on_subset)
qed auto

lemma disciplined_drop_guards:
  "distinct (map fst gs) \<Longrightarrow> disciplined rank c (drop_guards gs)"
proof (induction gs)
  case (Cons g gs)
  then show ?case by (cases g) (simp add: drop_guards_def [of "_ # _"] flip: drop_guards_def)
qed (simp add: drop_guards_def)

lemma settle_unwind [simp]: "settle (unwind p) = unwind p"
  by (cases "guards p") (auto simp: unwind_def drop_guards_def)

lemma settle_disciplined: "disciplined rank c p \<Longrightarrow> settle p = p"
  by (cases p rule: settle.cases) auto

lemma work_simps [simp]:
  "work b [] = 0" "work b (a # p) = weight b a + work b p" "work b (p @ q) = work b p + work b q"
  by (simp_all add: work_def)

lemma length_guards_le: "length (guards p) \<le> work b p"
  by (induction p rule: guards.induct) (auto simp: length_remove1 split: if_splits)

lemma work_drop_guards [simp]: "work b (drop_guards gs) = length gs"
  by (induction gs) (auto simp: drop_guards_def)

lemma work_unwind: "work b (unwind p) \<le> work b p"
  using length_guards_le [of p b] by (simp add: unwind_def)

section \<open>The invariant\<close>

fun awaits :: "('l, 'e) action list \<Rightarrow> ('l \<times> mode) option" where
  "awaits (Await l m # p) = Some (l, m)"
| "awaits p = None"

definition tasks_inv :: "('l \<Rightarrow> nat) \<Rightarrow> nat \<Rightarrow> ('l, 'e) system \<Rightarrow> bool" where
  "tasks_inv rank c s \<longleftrightarrow> programs s \<noteq> [] \<and>
     (\<forall>t. disciplined rank c (settle (task_of s t))) \<and> list_all (receiver_action rank c) (task_of s 0)"

definition held_inv :: "('l, 'e) system \<Rightarrow> bool" where
  "held_inv s \<longleftrightarrow>
     (\<forall>l t m. (t, m) \<in> set (held s l) \<longleftrightarrow> (l, m) \<in> set (guards (task_of s t))) \<and>
     (\<forall>l. distinct (held s l)) \<and>
     (\<forall>l t. (t, Write) \<in> set (held s l) \<longrightarrow> held s l = [(t, Write)])"

definition waiting_inv :: "('l, 'e) system \<Rightarrow> bool" where
  "waiting_inv s \<longleftrightarrow>
     (\<forall>l t m. (t, m) \<in> set (waiting s l) \<longleftrightarrow> awaits (task_of s t) = Some (l, m)) \<and>
     (\<forall>l. distinct (waiting s l))"

definition queue_inv :: "nat \<Rightarrow> ('l, 'e) system \<Rightarrow> bool" where
  "queue_inv cap s \<longleftrightarrow> length (queue s) \<le> cap \<and> (closed s \<longrightarrow> queue s = [])"

definition lock_inv :: "('l \<Rightarrow> nat) \<Rightarrow> nat \<Rightarrow> nat \<Rightarrow> ('l, 'e) system \<Rightarrow> bool" where
  "lock_inv rank c cap s \<longleftrightarrow> tasks_inv rank c s \<and> held_inv s \<and> waiting_inv s \<and> queue_inv cap s"

lemma awaits_eq_Some: "awaits p = Some (l, m) \<longleftrightarrow> (\<exists>q. p = Await l m # q)"
  by (cases p rule: awaits.cases) auto

lemma awaits_settle [simp]: "awaits (settle p) = None" "awaits p = None \<Longrightarrow> settle p = p"
  by (cases p rule: settle.cases; simp)+

lemma disciplined_awaits: "disciplined rank c p \<Longrightarrow> awaits p = None"
  by (cases p rule: awaits.cases) auto

lemma task_of_set_task [simp]:
  "task_of (set_task t p s) t' =
     (if t' = t then if t < length (programs s) then p else [] else task_of s t')"
  by (simp add: task_of_def set_task_def)

lemma task_of_update [simp]:
  "task_of (s\<lparr>held := h\<rparr>) t = task_of s t" "task_of (s\<lparr>waiting := w\<rparr>) t = task_of s t"
  "task_of (s\<lparr>queue := q\<rparr>) t = task_of s t" "task_of (s\<lparr>closed := b\<rparr>) t = task_of s t"
  by (simp_all add: task_of_def)

lemma set_task_sel [simp]:
  "held (set_task t p s) = held s" "waiting (set_task t p s) = waiting s"
  "queue (set_task t p s) = queue s" "closed (set_task t p s) = closed s"
  "length (programs (set_task t p s)) = length (programs s)"
  "programs (set_task t p s) = [] \<longleftrightarrow> programs s = []"
  by (simp_all add: set_task_def)

lemma task_of_less: "task_of s t = a # p \<Longrightarrow> t < length (programs s)"
  by (simp add: task_of_def split: if_splits)

lemma tasks_inv_set_task:
  assumes "tasks_inv rank c s" and "disciplined rank c (settle p)"
    and "t = 0 \<Longrightarrow> list_all (receiver_action rank c) p" and "programs s' = programs s"
  shows "tasks_inv rank c (set_task t p s')"
proof -
  have "task_of s' = task_of s" using assms(4) by (simp add: task_of_def fun_eq_iff)
  then show ?thesis using assms by (auto simp: tasks_inv_def)
qed

lemma held_invI:
  assumes "\<And>l t m. (t, m) \<in> set (held s l) \<longleftrightarrow> (l, m) \<in> set (guards (task_of s t))"
    and "\<And>l. distinct (held s l)"
    and "\<And>l t. (t, Write) \<in> set (held s l) \<Longrightarrow> held s l = [(t, Write)]"
  shows "held_inv s"
  unfolding held_inv_def using assms by blast

lemma held_inv_set_task:
  assumes "held_inv s" and "set (guards p) = set (guards (task_of s t))"
    and "programs s' = programs s" and "held s' = held s"
  shows "held_inv (set_task t p s')"
proof -
  have "task_of s' = task_of s" using assms(3) by (simp add: task_of_def fun_eq_iff)
  then show ?thesis using assms by (auto simp: held_inv_def task_of_def [of s])
qed

lemma waiting_inv_set_task:
  assumes "waiting_inv s" and "awaits (task_of s t) = None" and "awaits p = None"
    and "programs s' = programs s" and "waiting s' = waiting s"
  shows "waiting_inv (set_task t p s')"
proof -
  have "task_of s' = task_of s" using assms(4) by (simp add: task_of_def fun_eq_iff)
  then show ?thesis using assms by (auto simp: waiting_inv_def)
qed

lemma acquired:
  assumes "disciplined rank c (Acquire l m # p)"
  shows "set (guards p) = insert (l, m) (set (remove1 (l, m) (guards p)))"
    and "(l, m) \<notin> set (remove1 (l, m) (guards p))" and "awaits p = None" and "disciplined rank c p"
proof -
  show d: "disciplined rank c p" using assms by simp
  then have "distinct (guards p)" using disciplined_guards_distinct by (auto simp: distinct_map)
  then show "set (guards p) = insert (l, m) (set (remove1 (l, m) (guards p)))"
      "(l, m) \<notin> set (remove1 (l, m) (guards p))"
    using assms by auto
  show "awaits p = None" by (rule disciplined_awaits [OF d])
qed

lemma held_inv_grant:
  assumes "held_inv s" and "task_of s t = Await l m # p" and "disciplined rank c (Acquire l m # p)"
    and "compatible m (held s l)"
  shows "held_inv (set_task t p (s\<lparr>waiting := w, held := (held s)(l := (t, m) # held s l)\<rparr>))"
proof -
  obtain G where G: "guards (task_of s t) = G" "set (guards p) = insert (l, m) (set G)" "(l, m) \<notin> set G"
    using acquired [OF assms(3)] assms(2) by simp
  have held: "(t', m') \<in> set (held s l') \<longleftrightarrow> (l', m') \<in> set (guards (task_of s t'))" for t' l' m'
    using assms(1) by (simp add: held_inv_def)
  let ?s' = "set_task t p (s\<lparr>waiting := w, held := (held s)(l := (t, m) # held s l)\<rparr>)"
  have new: "(t, m) \<notin> set (held s l)"
    using held G by simp
  show ?thesis
  proof (rule held_invI)
    show "(t', m') \<in> set (held ?s' l') \<longleftrightarrow> (l', m') \<in> set (guards (task_of ?s' t'))" for l' t' m'
      using held G task_of_less [OF assms(2)] by (cases "t' = t"; cases "l' = l"; simp)
    show "distinct (held ?s' l')" for l'
      using assms(1) new by (simp add: held_inv_def)
    show "held ?s' l' = [(t', Write)]" if "(t', Write) \<in> set (held ?s' l')" for l' t'
    proof (cases "l' = l")
      case True
      then show ?thesis using assms(4) that by (cases m) (auto simp: list_all_iff)
    next
      case False
      then show ?thesis using assms(1) that by (simp add: held_inv_def)
    qed
  qed
qed

lemma held_inv_release:
  assumes "held_inv s" and "task_of s t = Release l m # p" and "disciplined rank c (Release l m # p)"
  shows "held_inv (set_task t p (s\<lparr>held := (held s)(l := remove1 (t, m) (held s l))\<rparr>))"
proof -
  have "(l, m') \<notin> set (guards p)" for m' using assms(3) by force
  moreover have "remove1 (t, m) (held s l) = []" if "(t', Write) \<in> set (held s l)" for t'
  proof -
    have "held s l = [(t', Write)]" using assms(1) that by (auto simp: held_inv_def)
    moreover have "(t, m) \<in> set (held s l)" using assms(1,2) by (simp add: held_inv_def)
    ultimately show ?thesis by simp
  qed
  ultimately show ?thesis
    using assms(1,2) task_of_less [OF assms(2)] by (auto simp: held_inv_def)
qed

lemma waiting_inv_request:
  assumes "waiting_inv s" and "task_of s t = Acquire l m # p"
  shows "waiting_inv (set_task t (Await l m # p) (s\<lparr>waiting := (waiting s)(l := waiting s l @ [(t, m)])\<rparr>))"
proof -
  have "(t, m') \<notin> set (waiting s l')" for m' l'
    using assms by (simp add: waiting_inv_def)
  then show ?thesis
    using assms task_of_less [OF assms(2)] by (auto simp: waiting_inv_def)
qed

lemma waiting_inv_grant:
  assumes "waiting_inv s" and "task_of s t = Await l m # p" and "awaits p = None"
    and "waiting s l = (t, m) # ws"
  shows "waiting_inv (set_task t p (s\<lparr>waiting := (waiting s)(l := ws), held := h\<rparr>))"
proof -
  have w: "(t', m') \<in> set (waiting s l') \<longleftrightarrow> awaits (task_of s t') = Some (l', m')" for t' m' l'
    using assms(1) by (simp add: waiting_inv_def)
  have d: "distinct (waiting s l')" for l'
    using assms(1) by (simp add: waiting_inv_def)
  have "(t', m') \<in> set (((waiting s)(l := ws)) l') \<longleftrightarrow>
      (t', m') \<in> set (waiting s l') \<and> (t', m', l') \<noteq> (t, m, l)" for t' m' l'
    using assms(4) d [of l] by auto
  then show ?thesis
    using w d [of l] d assms(2-4) by (auto simp: waiting_inv_def)
qed

section \<open>Remaining work\<close>

lemma work_set_task:
  assumes "t < length (programs s)" and "programs s' = programs s"
  shows "system_work b (set_task t p s') + work b (task_of s t) + (b + 1) * length (queue s) =
     system_work b s + work b p + (b + 1) * length (queue s')"
  using sum_list_map_update [of t "programs s" "work b" p] assms
  by (simp add: system_work_def set_task_def task_of_def)

lemma work_less_task:
  assumes "programs s' = programs s" and "queue s' = queue s" and "t < length (programs s)"
    and "work b p < work b (task_of s t)"
  shows "system_work b (set_task t p s') < system_work b s"
  using work_set_task [OF assms(3,1), of b p] assms(2,4) by simp

text \<open>What a task waits for, by rank.\<close>

fun wait_rank :: "('l \<Rightarrow> nat) \<Rightarrow> nat \<Rightarrow> ('l, 'e) action list \<Rightarrow> nat" where
  "wait_rank rank c (Await l m # p) = rank l"
| "wait_rank rank c (Send e # p) = c"
| "wait_rank rank c p = 0"

lemma guards_below_wait:
  assumes "disciplined rank c (settle p)" and "(l, m) \<in> set (guards p)"
    and "\<And>l m q. p \<noteq> Acquire l m # q" and "\<And>l m q. p \<noteq> Release l m # q"
  shows "rank l < wait_rank rank c p"
  using assms by (cases p rule: guards.cases) (force simp: list_all_iff)+

section \<open>The contract of the programs\<close>

locale lock_discipline =
  fixes rank :: "'l \<Rightarrow> nat" and c :: nat and cap :: nat and bound :: nat
    and handler :: "'e \<Rightarrow> ('l, 'e) action list \<Rightarrow> bool"
    and operation :: "('l, 'e) action list \<Rightarrow> bool"
  assumes cap_pos: "0 < cap"
    and operation_ok: "operation p \<Longrightarrow> disciplined rank c p \<and> guards p = []"
    and handler_ok: "handler e p \<Longrightarrow> disciplined rank c p \<and> guards p = [] \<and>
      list_all (receiver_action rank c) p \<and> work bound p \<le> bound"
    and handler_exists: "\<exists>p. handler e p"
begin

lemma inv_new: "0 < n \<Longrightarrow> lock_inv rank c cap (system_new n)"
  by (auto simp: lock_inv_def tasks_inv_def held_inv_def waiting_inv_def queue_inv_def system_new_def task_of_def)

lemma unwind_ok:
  assumes "disciplined rank c (settle p)"
  shows "disciplined rank c (settle (unwind p))" and "list_all (receiver_action rank c) (unwind p)"
    and "guards (unwind p) = guards p" and "awaits (unwind p) = None"
proof -
  show d: "disciplined rank c (settle (unwind p))"
    using disciplined_guards_distinct [OF assms] by (simp add: unwind_def disciplined_drop_guards settle_disciplined)
  show "list_all (receiver_action rank c) (unwind p)"
    by (auto simp: unwind_def drop_guards_def receiver_action_def list_all_iff)
  show "guards (unwind p) = guards p" by (simp add: unwind_def)
  show "awaits (unwind p) = None" using awaits_settle(1) [of "unwind p"] by simp
qed

lemma inv_progress:
  assumes "lock_inv rank c cap s" and "progress cap handler s s'"
  shows "lock_inv rank c cap s'"
proof -
  have t: "tasks_inv rank c s" and h: "held_inv s" and w: "waiting_inv s" and q: "queue_inv cap s"
    using assms(1) by (simp_all add: lock_inv_def)
  have d: "disciplined rank c (settle (task_of s t))" for t
    using t by (simp add: tasks_inv_def)
  have r: "list_all (receiver_action rank c) (task_of s 0)"
    using t by (simp add: tasks_inv_def)
  from assms(2) show ?thesis
  proof cases
    case (request t l m p)
    then show ?thesis
      using t h w q d [of t] r waiting_inv_request [OF w request(2)]
      by (auto simp: lock_inv_def queue_inv_def receiver_action_def intro!: tasks_inv_set_task held_inv_set_task)
  next
    case (grant t l m p ws)
    have a: "disciplined rank c (Acquire l m # p)" using d [of t] grant(2) by simp
    show ?thesis
      using grant t q r acquired(3,4) [OF a] held_inv_grant [OF h grant(2) a grant(4)]
        waiting_inv_grant [OF w grant(2) _ grant(3)]
      by (auto simp: lock_inv_def queue_inv_def intro!: tasks_inv_set_task)
  next
    case (release t l m p)
    have a: "disciplined rank c (Release l m # p)" using d [of t] release(2) by simp
    then show ?thesis
      using release t w q r held_inv_release [OF h release(2) a] disciplined_awaits [of rank c p]
      by (auto simp: lock_inv_def queue_inv_def intro!: tasks_inv_set_task waiting_inv_set_task [OF w])
  next
    case (send t e p)
    have a: "disciplined rank c p" using d [of t] send(2) by simp
    then show ?thesis
      using send t w q r h disciplined_awaits [OF a]
      by (auto simp: lock_inv_def queue_inv_def intro!: tasks_inv_set_task held_inv_set_task waiting_inv_set_task)
  next
    case (send_fails t e p)
    have "disciplined rank c p" using d [of t] send_fails(2) by simp
    then have "disciplined rank c (settle p)" by (simp add: settle_disciplined)
    then show ?thesis
      using send_fails t w q h unwind_ok [of p]
      by (auto simp: lock_inv_def queue_inv_def intro!: tasks_inv_set_task held_inv_set_task waiting_inv_set_task)
  next
    case (receive e qu p)
    then show ?thesis
      using t w q h handler_ok [OF receive(5)] disciplined_awaits [of rank c p]
      by (auto simp: lock_inv_def queue_inv_def intro!: tasks_inv_set_task held_inv_set_task waiting_inv_set_task)
  qed
qed

lemma inv_environment:
  assumes "lock_inv rank c cap s" and "environment operation s s'"
  shows "lock_inv rank c cap s'"
proof -
  have t: "tasks_inv rank c s" and h: "held_inv s" and w: "waiting_inv s" and q: "queue_inv cap s"
    using assms(1) by (simp_all add: lock_inv_def)
  have d: "disciplined rank c (settle (task_of s t))" for t
    using t by (simp add: tasks_inv_def)
  from assms(2) show ?thesis
  proof cases
    case (start t p)
    then show ?thesis
      using t w q h operation_ok [OF start(5)] disciplined_awaits [of rank c p]
      by (auto simp: lock_inv_def queue_inv_def intro!: tasks_inv_set_task held_inv_set_task waiting_inv_set_task)
  next
    case (panic t p)
    then have "awaits (task_of s t) = None" by (cases p rule: awaits.cases) auto
    then show ?thesis
      using panic t w q h unwind_ok [OF d [of t]]
      by (auto simp: lock_inv_def queue_inv_def intro!: tasks_inv_set_task held_inv_set_task waiting_inv_set_task)
  next
    case (receiver_panic p)
    then have "awaits (task_of s 0) = None" by (cases p rule: awaits.cases) auto
    then show ?thesis
      using receiver_panic t w q h unwind_ok [OF d [of 0]]
      by (auto simp: lock_inv_def queue_inv_def intro!: tasks_inv_set_task held_inv_set_task waiting_inv_set_task)
  qed
qed

lemma inv_reachable: "reachable cap handler operation s \<Longrightarrow> lock_inv rank c cap s"
  by (induction rule: reachable.induct) (auto intro: inv_new inv_progress inv_environment)

lemma work_decreases:
  assumes "lock_inv rank c cap s" and "progress cap handler s s'"
  shows "system_work bound s' < system_work bound s"
  using assms(2)
proof cases
  case (send t e p)
  then show ?thesis
    using work_set_task [OF task_of_less [OF send(2)], of "s\<lparr>queue := queue s @ [e]\<rparr>" bound p] by simp
next
  case (send_fails t e p)
  then show ?thesis
    using work_unwind [of bound p] by (auto intro!: work_less_task dest: task_of_less)
next
  case (receive e q p)
  have "0 < length (programs s)" using assms(1) by (simp add: lock_inv_def tasks_inv_def)
  then show ?thesis
    using receive work_set_task [of 0 s "s\<lparr>queue := q\<rparr>" bound p] handler_ok [OF receive(5)] by simp
qed (auto intro!: work_less_task dest: task_of_less)

lemma receiver_idle:
  assumes "\<nexists>s'. progress cap handler s s'" and "queue s = e # q" and "\<not> closed s"
  shows "task_of s 0 \<noteq> []"
proof
  assume "task_of s 0 = []"
  moreover obtain p where "handler e p" using handler_exists by blast
  ultimately show False using assms progress.receive [of s e q handler p cap] by blast
qed

text \<open>A task that cannot move waits for what a task with a higher wait rank holds back.\<close>

lemma blocked_by_higher:
  assumes "lock_inv rank c cap s" and "task_of s t \<noteq> []" and stuck: "\<nexists>s'. progress cap handler s s'"
  shows "\<exists>t'. task_of s t' \<noteq> [] \<and> wait_rank rank c (task_of s t) < wait_rank rank c (task_of s t')"
proof -
  have inv: "tasks_inv rank c s" "held_inv s" "waiting_inv s" "queue_inv cap s"
    using assms(1) by (simp_all add: lock_inv_def)
  have d: "disciplined rank c (settle (task_of s t))" for t using inv(1) by (simp add: tasks_inv_def)
  have not: "task_of s t \<noteq> Acquire l m # q \<and> task_of s t \<noteq> Release l m # q" for t l m q
    using stuck progress.request [of s t l m q] progress.release [of s t l m q] by blast
  obtain a p where ap: "task_of s t = a # p" using assms(2) by (cases "task_of s t") auto
  show ?thesis
  proof (cases a)
    case (Await l m)
    then have "(t, m) \<in> set (waiting s l)" using inv(3) ap by (simp add: waiting_inv_def)
    then obtain t1 m1 ws where first: "waiting s l = (t1, m1) # ws" by (cases "waiting s l") auto
    then have "(t1, m1) \<in> set (waiting s l)" by simp
    then obtain q where "task_of s t1 = Await l m1 # q"
      using inv(3) by (auto simp: waiting_inv_def awaits_eq_Some)
    then have "\<not> compatible m1 (held s l)" using stuck progress.grant [of s t1 l m1 q ws] first by blast
    then have "held s l \<noteq> []" by (cases m1) auto
    then obtain t' m' where "(t', m') \<in> set (held s l)" by (cases "held s l") auto
    then have held: "(l, m') \<in> set (guards (task_of s t'))" using inv(2) by (simp add: held_inv_def)
    have "rank l < wait_rank rank c (task_of s t')"
      by (rule guards_below_wait [OF d held]) (use not in auto)
    then show ?thesis using held ap Await by (intro exI [of _ t']) auto
  next
    case (Send e)
    then have "task_of s t = Send e # p" using ap by simp
    then have full: "\<not> closed s" "\<not> length (queue s) < cap"
      using stuck progress.send [of s t e p] progress.send_fails [of s t e p] by blast+
    then obtain e' q where "queue s = e' # q" using cap_pos by (cases "queue s") auto
    then have "task_of s 0 \<noteq> []" using receiver_idle [OF stuck] full(1) by blast
    then obtain b r where br: "task_of s 0 = b # r" by (cases "task_of s 0") auto
    then have "receiver_action rank c b" using inv(1) by (simp add: tasks_inv_def)
    then have "c < wait_rank rank c (task_of s 0)"
      using not [of 0] br by (cases b) (auto simp: receiver_action_def)
    then show ?thesis using ap Send br by (intro exI [of _ 0]) auto
  qed (use not ap in auto)
qed

lemma no_deadlock:
  assumes "lock_inv rank c cap s" and "task_of s t \<noteq> []"
  shows "\<exists>s'. progress cap handler s s'"
proof (rule ccontr)
  assume stuck: "\<nexists>s'. progress cap handler s s'"
  let ?T = "{t. task_of s t \<noteq> []}" and ?w = "\<lambda>t. wait_rank rank c (task_of s t)"
  have "?T \<subseteq> {..<length (programs s)}" by (auto simp: task_of_def split: if_splits)
  then have fin: "finite (?w ` ?T)" using finite_subset by blast
  moreover have "?w ` ?T \<noteq> {}" using assms(2) by blast
  ultimately have "Max (?w ` ?T) \<in> ?w ` ?T" by (rule Max_in)
  then obtain t1 where t1: "task_of s t1 \<noteq> []" "Max (?w ` ?T) = ?w t1" by auto
  obtain t2 where "task_of s t2 \<noteq> []" "?w t1 < ?w t2"
    using blocked_by_higher [OF assms(1) t1(1) stuck] by blast
  then show False using Max_ge [OF fin, of "?w t2"] t1(2) by simp
qed

lemma stuck_quiescent:
  assumes "lock_inv rank c cap s" and "\<nexists>s'. progress cap handler s s'"
  shows "quiescent s"
proof -
  have idle: "task_of s t = []" for t using no_deadlock [OF assms(1)] assms(2) by blast
  have inv: "held_inv s" "waiting_inv s" "queue_inv cap s" using assms(1) by (simp_all add: lock_inv_def)
  have progs: "list_all (\<lambda>p. p = []) (programs s)"
    using idle by (metis (mono_tags, lifting) list_all_length task_of_def)
  have "x \<notin> set (held s l)" "x \<notin> set (waiting s l)" for x l
    using inv(1,2) idle by (cases x; simp add: held_inv_def waiting_inv_def)+
  then have "held s l = []" "waiting s l = []" for l by (metis list.set_intros(1) neq_Nil_conv)+
  moreover have "queue s = []"
    using receiver_idle [OF assms(2)] idle [of 0] inv(3) by (cases "queue s") (auto simp: queue_inv_def)
  ultimately show ?thesis using progs by (simp add: quiescent_def)
qed

lemma bounded_run:
  assumes "lock_inv rank c cap s" and "(progress cap handler ^^ k) s s'"
  shows "lock_inv rank c cap s'" and "k + system_work bound s' \<le> system_work bound s"
proof -
  from assms have "lock_inv rank c cap s' \<and> k + system_work bound s' \<le> system_work bound s"
  proof (induction k arbitrary: s')
    case (Suc k)
    then obtain s1 where "(progress cap handler ^^ k) s s1" "progress cap handler s1 s'" by auto
    with Suc.IH Suc.prems(1) inv_progress work_decreases show ?case by fastforce
  qed simp
  then show "lock_inv rank c cap s'" "k + system_work bound s' \<le> system_work bound s" by auto
qed

lemma can_finish:
  assumes "lock_inv rank c cap s"
  shows "\<exists>k s'. (progress cap handler ^^ k) s s' \<and> quiescent s'"
  using assms
proof (induction "system_work bound s" arbitrary: s rule: less_induct)
  case less
  show ?case
  proof (cases "\<exists>s'. progress cap handler s s'")
    case True
    then obtain s1 where s1: "progress cap handler s s1" by blast
    with less obtain k s' where "(progress cap handler ^^ k) s1 s'" "quiescent s'"
      using work_decreases inv_progress by blast
    with s1 show ?thesis using relpowp_Suc_I2 [of "progress cap handler" s s1 k s'] by blast
  next
    case False
    then show ?thesis using stuck_quiescent [OF less.prems] by (intro exI [of _ 0]) auto
  qed
qed

end

end
