(* ===== verification/Protocol.thy ===== *)
theory Protocol
  imports Rust_Std
begin

text \<open>
  \<^verbatim>\<open>src/src/protocol/mod.rs\<close> and \<^verbatim>\<open>src/src/http.rs\<close>: the registry of protocols, the traits
  \<^verbatim>\<open>Protocol\<close>, \<^verbatim>\<open>ProtocolServer\<close> and \<^verbatim>\<open>Connection\<close> with their default methods, capabilities
  and messages, and the HTTP protocol.

  A trait object is a record of its methods. \<open>protocol_default\<close>, \<open>server_default\<close> and
  \<open>connection_default\<close> fill in the methods that the trait defines itself, so an implementation
  is a record update that overrides some of them, as an \<^verbatim>\<open>impl\<close> block does. A method that may
  fail returns a sum, its error being the text of the \<^verbatim>\<open>anyhow\<close> error, inside an \<open>outcome\<close>, since
  several methods of the source are \<^verbatim>\<open>unimplemented!()\<close>. A connection has a state
  \<open>'s\<close> that \<^verbatim>\<open>send\<close> and \<^verbatim>\<open>receive\<close> change. A data stream behind \<^verbatim>\<open>dyn AsyncRead\<close> is a
  \<open>reader\<close>: the cursor over a buffer that the source creates itself, or a foreign one \<open>'r\<close>.
  Sockets are opaque (\<open>'sock\<close>).
\<close>

section \<open>Capabilities\<close>

record protocol_capabilities =
  cap_client :: bool
  cap_server :: bool
  cap_disasm :: bool
  cap_message_boundaries :: bool
  cap_multiplexing :: u32
  cap_sockets :: bool

definition protocol_capabilities_default :: protocol_capabilities where
  "protocol_capabilities_default =
     \<lparr>cap_client = False, cap_server = False, cap_disasm = False, cap_message_boundaries = False,
      cap_multiplexing = 1, cap_sockets = False\<rparr>"

section \<open>Messages\<close>

datatype 'r reader = Cursor "u8 list" | Foreign 'r

datatype 'sock socket_stream = Tcp 'sock | Udp 'sock | Uds 'sock

record ('r, 'sock) message =
  msg_data :: "'r reader option"
  msg_size :: "u64 option"
  msg_channel_id :: "u32 option"
  msg_sockets :: "'sock socket_stream list"
  msg_meta :: "(string, string) hash_map"

definition message_default :: "('r, 'sock) message" where
  "message_default =
     \<lparr>msg_data = None, msg_size = None, msg_channel_id = None, msg_sockets = [], msg_meta = []\<rparr>"

definition with_data :: "'r reader \<Rightarrow> ('r, 'sock) message" where
  "with_data data = message_default\<lparr>msg_data := Some data\<rparr>"

text \<open>The length of a buffer is a \<^verbatim>\<open>usize\<close>, so its conversion to \<^verbatim>\<open>u64\<close> succeeds.\<close>

definition with_data_from_buffer :: "u8 list \<Rightarrow> ('r, 'sock) message" where
  "with_data_from_buffer buffer =
     (let buffer_len = length buffer; m = with_data (Cursor buffer)
      in m\<lparr>msg_size := Some (of_nat buffer_len)\<rparr>)"

record 'sock connection_state =
  cs_stream :: "'sock socket_stream option"
  cs_internal :: "u8 list"

section \<open>The traits and their default methods\<close>

type_synonym 'a fallible = "(string + 'a) outcome"

definition unimplemented :: "'a outcome" where
  "unimplemented = Panic ''not implemented''"

record ('conn, 'server, 'sock) protocol =
  proto_name :: string
  proto_capabilities :: protocol_capabilities
  proto_new_client :: "string \<Rightarrow> 'conn fallible"
  proto_assemble_client :: "'sock connection_state \<Rightarrow> 'conn fallible"
  proto_new_server :: "socket_addr \<Rightarrow> 'server fallible"

definition quoted :: "string \<Rightarrow> string" where
  "quoted s = CHR 0x27 # s @ [CHR 0x27]"

definition protocol_default :: "string \<Rightarrow> ('conn, 'server, 'sock) protocol" where
  "protocol_default name =
     \<lparr>proto_name = name,
      proto_capabilities = protocol_capabilities_default,
      proto_new_client =
        (\<lambda>_. Done (Inl (''Protocol '' @ quoted name @ '' does not offer a client''))),
      proto_assemble_client =
        (\<lambda>_. Done (Inl (''Protocol '' @ quoted name @ '' cannot assemble clients''))),
      proto_new_server =
        (\<lambda>_. Done (Inl (''Protocol '' @ quoted name @ '' does not offer a server'')))\<rparr>"

record ('conn, 'sock) protocol_server =
  srv_next :: "'conn fallible"
  srv_assemble_connection :: "'sock connection_state \<Rightarrow> unit fallible"

definition server_default :: "'conn fallible \<Rightarrow> ('conn, 'sock) protocol_server" where
  "server_default nxt =
     \<lparr>srv_next = nxt,
      srv_assemble_connection =
        (\<lambda>_. Done (Inl ''This server does not support connection assembly''))\<rparr>"

text \<open>What users of a connection see of the protocol behind it are its name and capabilities.\<close>

record ('s, 'r, 'sock) connection =
  conn_state :: 's
  conn_protocol_name :: string
  conn_capabilities :: protocol_capabilities
  conn_send :: "'s \<Rightarrow> ('r, 'sock) message \<Rightarrow> 's \<times> unit fallible"
  conn_receive :: "'s \<Rightarrow> 's \<times> ('r, 'sock) message fallible"
  conn_new_channel :: "'s \<Rightarrow> 's \<times> u32 fallible"
  conn_disassemble :: "'s \<Rightarrow> 'sock connection_state fallible"

definition connection_default ::
    "'s \<Rightarrow> ('c, 'v, 'sock) protocol \<Rightarrow> ('s \<Rightarrow> ('r, 'sock) message \<Rightarrow> 's \<times> unit fallible) \<Rightarrow>
     ('s \<Rightarrow> 's \<times> ('r, 'sock) message fallible) \<Rightarrow> ('s, 'r, 'sock) connection" where
  "connection_default st protocol send receive =
     \<lparr>conn_state = st, conn_protocol_name = proto_name protocol,
      conn_capabilities = proto_capabilities protocol,
      conn_send = send, conn_receive = receive,
      conn_new_channel = (\<lambda>s. (s, Done (Inl ''This connection does not support multiplexing''))),
      conn_disassemble = (\<lambda>_. Done (Inl ''This connection does not support disassembly''))\<rparr>"

section \<open>The registry\<close>

datatype protocol_error = DuplicateRegistration string

definition protocol_error_fmt :: "protocol_error \<Rightarrow> string" where
  "protocol_error_fmt e =
     (case e of DuplicateRegistration name \<Rightarrow> ''Protocol '' @ quoted name @ '' is already registered'')"

record ('conn, 'server, 'sock) protocol_registry =
  protocols :: "(string, ('conn, 'server, 'sock) protocol) hash_map"

definition protocol_registry_new :: "('conn, 'server, 'sock) protocol_registry" where
  "protocol_registry_new = \<lparr>protocols = []\<rparr>"

definition protocol_register ::
    "('conn, 'server, 'sock) protocol_registry \<Rightarrow> ('conn, 'server, 'sock) protocol \<Rightarrow>
     protocol_error + ('conn, 'server, 'sock) protocol_registry" where
  "protocol_register reg protocol =
     (case hm_get (protocols reg) (proto_name protocol) of
        None \<Rightarrow> Inr (reg\<lparr>protocols := hm_insert (proto_name protocol) protocol (protocols reg)\<rparr>)
      | Some _ \<Rightarrow> Inl (DuplicateRegistration (proto_name protocol)))"

definition protocol_get ::
    "('conn, 'server, 'sock) protocol_registry \<Rightarrow> string \<Rightarrow> ('conn, 'server, 'sock) protocol option" where
  "protocol_get reg name = hm_get (protocols reg) name"

text \<open>Every protocol is stored under its own name.\<close>

definition protocol_registry_wf :: "('conn, 'server, 'sock) protocol_registry \<Rightarrow> bool" where
  "protocol_registry_wf reg \<longleftrightarrow>
     hm_wf (protocols reg) \<and> list_all (\<lambda>e. proto_name (snd e) = fst e) (protocols reg)"

lemma protocol_registry_wf_new: "protocol_registry_wf protocol_registry_new"
  by (simp add: protocol_registry_wf_def protocol_registry_new_def)

lemma protocol_register_wf:
  "protocol_registry_wf reg \<Longrightarrow> protocol_register reg p = Inr reg' \<Longrightarrow> protocol_registry_wf reg'"
  by (auto simp: protocol_registry_wf_def protocol_register_def list_all_update wf_intros
      split: option.splits)

interpretation proto_reg: registry protocol_get proto_name "\<lambda>p. p" protocol_register protocol_registry_wf
proof
  fix reg :: "('conn, 'server, 'sock) protocol_registry" and p :: "('conn, 'server, 'sock) protocol"
  assume wf: "protocol_registry_wf reg"
  show "\<exists>e. protocol_register reg p = Inl e" if "protocol_get reg (proto_name p) \<noteq> None"
    using that by (auto simp: protocol_register_def protocol_get_def)
  assume "protocol_get reg (proto_name p) = None"
  then show "\<exists>reg'. protocol_register reg p = Inr reg' \<and>
      protocol_get reg' = (protocol_get reg)(proto_name p \<mapsto> p) \<and> protocol_registry_wf reg'"
    using protocol_register_wf [OF wf, of p]
    by (auto simp: protocol_register_def protocol_get_def [abs_def] rust_simps fun_eq_iff)
qed

section \<open>The HTTP protocol\<close>

definition http_protocol_new :: "('conn, 'server, 'sock) protocol" where
  "http_protocol_new =
     (protocol_default ''http'')\<lparr>proto_new_client := (\<lambda>_. unimplemented),
       proto_new_server := (\<lambda>_. unimplemented)\<rparr>"

text \<open>The \<^verbatim>\<open>hyper\<close> client inside \<^verbatim>\<open>HttpClient\<close> is the opaque state of the connection.\<close>

definition http_client_new :: "('c, 'v, 'sock) protocol \<Rightarrow> 'h \<Rightarrow> ('h, 'r, 'sock) connection" where
  "http_client_new protocol hyper_client =
     connection_default hyper_client protocol (\<lambda>s _. (s, unimplemented)) (\<lambda>s. (s, unimplemented))"

definition http_server_new :: "('conn, 'sock) protocol_server" where
  "http_server_new = server_default unimplemented"

section \<open>Properties\<close>

lemma protocols_found:
  assumes "protocol_registry_wf reg" and r: "register_all protocol_register reg ps = Inr reg'"
  shows "\<forall>p \<in> set ps. protocol_get reg' (proto_name p) = Some p"
    and "\<forall>name p. protocol_get reg name = Some p \<longrightarrow> protocol_get reg' name = Some p"
    and "\<forall>name p. protocol_get reg' name = Some p \<longrightarrow> proto_name p = name"
proof -
  have free: "distinct (map proto_name ps)" "\<forall>p \<in> set ps. protocol_get reg (proto_name p) = None"
    using proto_reg.register_all_iff [OF assms(1), of ps] r by blast+
  let ?new = "map_of (map (\<lambda>p. (proto_name p, p)) ps)"
  have wf: "protocol_registry_wf reg'" and get: "protocol_get reg' = protocol_get reg ++ ?new"
    using proto_reg.register_all_lookup [OF assms] by blast+
  have "?new (proto_name p) = Some p" if "p \<in> set ps" for p
    using that free(1) by (intro map_of_is_SomeI) (simp_all add: comp_def)
  then show "\<forall>p \<in> set ps. protocol_get reg' (proto_name p) = Some p"
    by (simp add: get map_add_def)
  have "?new name = None" if "protocol_get reg name = Some p" for name p
  proof -
    have "name \<notin> proto_name ` set ps" using that free(2) by auto
    then show ?thesis by (simp add: map_of_eq_None_iff image_image)
  qed
  then show "\<forall>name p. protocol_get reg name = Some p \<longrightarrow> protocol_get reg' name = Some p"
    by (simp add: get map_add_def)
  have "proto_name p = name" if "protocol_get reg' name = Some p" for name p
    using wf hm_get_SomeD [OF that [unfolded protocol_get_def]]
    by (auto simp: protocol_registry_wf_def list_all_iff)
  then show "\<forall>name p. protocol_get reg' name = Some p \<longrightarrow> proto_name p = name" by blast
qed

text \<open>Registering protocols. A list of protocols is accepted by a well-formed registry exactly
  when their names are distinct and none is registered yet; afterwards every one of them is found
  under its own name, earlier registrations are unchanged, and every lookup returns a protocol
  of the name that was asked for.\<close>

lemma registered_protocols_are_found:
  assumes "protocol_registry_wf reg"
  shows "((\<exists>reg'. register_all protocol_register reg ps = Inr reg') \<longleftrightarrow>
      distinct (map proto_name ps) \<and> (\<forall>p \<in> set ps. protocol_get reg (proto_name p) = None)) \<and>
    (register_all protocol_register reg ps = Inr reg' \<longrightarrow>
      (\<forall>p \<in> set ps. protocol_get reg' (proto_name p) = Some p) \<and>
      (\<forall>name p. protocol_get reg name = Some p \<longrightarrow> protocol_get reg' name = Some p) \<and>
      (\<forall>name p. protocol_get reg' name = Some p \<longrightarrow> proto_name p = name))"
  using proto_reg.register_all_iff [OF assms] protocols_found [OF assms] by blast

end
