(* ===== verification/Matchmaking.thy ===== *)
theory Matchmaking
  imports Service_Selection Protocol
begin

text \<open>
  \<^verbatim>\<open>Matchmaker\<close> of \<^verbatim>\<open>src/src/matchmaking/mod.rs\<close>, which opens a listener for every port the
  service manager announces and connects every new connection to a selected endpoint. Protocol
  clients (\<^verbatim>\<open>client.rs\<close>) and servers (\<^verbatim>\<open>server.rs\<close>) are traits without implementations in the
  repository: what the matchmaker uses of them is their protocol's name and the calls it makes, which are
  the values \<open>server_call\<close> and \<open>connect_call\<close>. The module is commented out of the library crate at
  present.

  The matchmaker shares the service manager with the discovery tasks; a connection task sees the
  state of both when it runs, so the loop that starts these tasks has a list of states.
\<close>

section \<open>Data\<close>

record 'x protocol_client =
  client_protocol_name :: string
  client_impl :: 'x

record 'x port_server =
  server_protocol_name :: string
  server_impl :: 'x

text \<open>What a server sends for a new connection, and the frozen state of a connection that servers of
  different instances hand over to each other; no server of the repository produces either.\<close>

record 'ch new_connection_request =
  ncr_from :: socket_addr
  ncr_channel :: 'ch

record 'sock server_connection_state =
  scs_stream :: "'sock socket_stream"
  scs_read_buf :: "u8 list"
  scs_internal :: "u8 list"

datatype server_call = Listen string socket_addr u16 | Mute string u16

datatype connect_call = Connect string socket_addr

record ('m, 'c, 'x, 'y) matchmaker =
  mm_service_manager :: "('m, 'c) service_manager"
  protocol_clients :: "(string, 'x protocol_client) hash_map"
  protocol_servers :: "(string, 'y port_server) hash_map"
  open_ports :: "(u16, 'y port_server) hash_map"

definition matchmaker_new :: "('m, 'c) service_manager \<Rightarrow> ('m, 'c, 'x, 'y) matchmaker" where
  "matchmaker_new sm = \<lparr>mm_service_manager = sm, protocol_clients = [], protocol_servers = [], open_ports = []\<rparr>"

section \<open>Registration\<close>

definition register_client ::
    "('m, 'c, 'x, 'y) matchmaker \<Rightarrow> 'x protocol_client \<Rightarrow> string + ('m, 'c, 'x, 'y) matchmaker" where
  "register_client mm client =
     (let name = client_protocol_name client
      in case hm_get (protocol_clients mm) name of
           None \<Rightarrow> Inr (mm\<lparr>protocol_clients := hm_insert name client (protocol_clients mm)\<rparr>)
         | Some _ \<Rightarrow> Inl (''a client for the '' @ name @ '' protocol is already registered''))"

definition register_server ::
    "('m, 'c, 'x, 'y) matchmaker \<Rightarrow> 'y port_server \<Rightarrow> string + ('m, 'c, 'x, 'y) matchmaker" where
  "register_server mm server =
     (let name = server_protocol_name server
      in case hm_get (protocol_servers mm) name of
           None \<Rightarrow> Inr (mm\<lparr>protocol_servers := hm_insert name server (protocol_servers mm)\<rparr>)
         | Some _ \<Rightarrow> Inl (''a server for the '' @ name @ '' protocol is already registered''))"

interpretation client_reg: registry "\<lambda>mm. hm_get (protocol_clients mm)" client_protocol_name "\<lambda>c. c"
  register_client "\<lambda>_. True"
  by unfold_locales (auto simp: register_client_def Let_def rust_simps fun_eq_iff)

interpretation server_reg: registry "\<lambda>mm. hm_get (protocol_servers mm)" server_protocol_name "\<lambda>s. s"
  register_server "\<lambda>_. True"
  by unfold_locales (auto simp: register_server_def Let_def rust_simps fun_eq_iff)

section \<open>Port events\<close>

fun handle_port_event ::
    "('m, 'c, 'x, 'y) matchmaker \<Rightarrow> port_event \<Rightarrow> ('m, 'c, 'x, 'y) matchmaker \<times> server_call list \<times> unit fallible" where
  "handle_port_event mm (Open port protocol) =
     (case hm_get (protocol_servers mm) protocol of
        Some protocol_server \<Rightarrow>
          if hm_get (open_ports mm) port \<noteq> None
          then (mm, [], Panic ''assertion failed: self.open_ports.read().await.get(&port).is_none()'')
          else (mm, [Listen (server_protocol_name protocol_server) (SocketAddr (V4 0 0 0 0) port) port],
                Done (Inr ()))
      | None \<Rightarrow> (mm, [], Done (Inl (''unknown protocol: '' @ protocol))))"
| "handle_port_event mm (Close port) =
     (case hm_get (open_ports mm) port of
        Some protocol_server \<Rightarrow>
          (mm\<lparr>open_ports := hm_remove port (open_ports mm)\<rparr>,
           [Mute (server_protocol_name protocol_server) port], Done (Inr ()))
      | None \<Rightarrow> (mm, [], Done (Inr ())))"

text \<open>The loop of \<^verbatim>\<open>run\<close> over the events its channel yields until the manager drops the sender,
  and \<^verbatim>\<open>run\<close> itself, which first gives the manager the sender of a new channel.\<close>

fun port_event_loop ::
    "('m, 'c, 'x, 'y) matchmaker \<Rightarrow> port_event list \<Rightarrow>
     ('m, 'c, 'x, 'y) matchmaker \<times> server_call list \<times> unit outcome" where
  "port_event_loop mm [] = (mm, [], Panic ''service manager closed the channel'')"
| "port_event_loop mm (event # events) =
     (case handle_port_event mm event of
        (mm', calls, Panic p) \<Rightarrow> (mm', calls, Panic p)
      | (mm', calls, Done (Inl e)) \<Rightarrow>
          (mm', calls, Panic ''called `Result::unwrap()` on an `Err` value'')
      | (mm', calls, Done (Inr _)) \<Rightarrow>
          (case port_event_loop mm' events of (mm'', calls', r) \<Rightarrow> (mm'', calls @ calls', r)))"

definition matchmaker_run ::
    "('c \<Rightarrow> port_event \<Rightarrow> 'c option) \<Rightarrow> 'c \<Rightarrow> ('m, 'c, 'x, 'y) matchmaker \<Rightarrow> port_event list \<Rightarrow>
     ('m, 'c, 'x, 'y) matchmaker \<times> server_call list \<times> unit outcome" where
  "matchmaker_run send new_sender mm events =
     port_event_loop
       (mm\<lparr>mm_service_manager := send_port_events_to send (mm_service_manager mm) new_sender\<rparr>)
       events"

section \<open>New connections\<close>

text \<open>The task of one connection: select, look up the client, connect; what follows is not
  implemented. The tuple is the connection that was attempted and how the task ends.\<close>

definition connect_selected ::
    "('m, 'c, 'x, 'y) matchmaker \<Rightarrow> (socket_addr \<times> string) option outcome \<Rightarrow> connect_call option \<times> unit outcome" where
  "connect_selected mm selected =
     (case selected of
        Panic p \<Rightarrow> (None, Panic p)
      | Done None \<Rightarrow> (None, Panic ''called `Option::unwrap()` on a `None` value'')
      | Done (Some (address, protocol)) \<Rightarrow>
          (case hm_get (protocol_clients mm) protocol of
             None \<Rightarrow> (None, Panic ''called `Option::unwrap()` on a `None` value'')
           | Some client \<Rightarrow> (Some (Connect (client_protocol_name client) address), unimplemented)))"

definition connection_task ::
    "('m, 'c, 'x, 'y) matchmaker \<Rightarrow> u16 \<Rightarrow> usize \<Rightarrow> connect_call option \<times> unit outcome" where
  "connection_task mm port i = connect_selected mm (get_endpoint_for (mm_service_manager mm) port i)"

text \<open>The receiving loop of \<^verbatim>\<open>new_connection_sender\<close>, with the states in which the task of each
  request runs.\<close>

fun new_connection_loop ::
    "u16 \<Rightarrow> usize \<Rightarrow> ('m, 'c, 'x, 'y) matchmaker list \<Rightarrow>
     (connect_call option \<times> unit outcome) list" where
  "new_connection_loop port i [] = []"
| "new_connection_loop port i (mm # mms) =
     (let i' = i + 1
      in connection_task mm port i' # new_connection_loop port i' mms)"

definition new_connection_sender ::
    "u16 \<Rightarrow> ('m, 'c, 'x, 'y) matchmaker list \<Rightarrow>
     (connect_call option \<times> unit outcome) list" where
  "new_connection_sender port requests = new_connection_loop port 0 requests"

section \<open>Invariant\<close>

text \<open>Clients and servers are stored under the name of their protocol.\<close>

definition matchmaker_wf :: "('m, 'c, 'x, 'y) matchmaker \<Rightarrow> bool" where
  "matchmaker_wf mm \<longleftrightarrow>
     list_all (\<lambda>e. client_protocol_name (snd e) = fst e) (protocol_clients mm) \<and>
     list_all (\<lambda>e. server_protocol_name (snd e) = fst e) (protocol_servers mm)"

lemma matchmaker_wf_new: "matchmaker_wf (matchmaker_new sm)"
  by (simp add: matchmaker_wf_def matchmaker_new_def)

lemma register_client_wf: "matchmaker_wf mm \<Longrightarrow> register_client mm c = Inr mm' \<Longrightarrow> matchmaker_wf mm'"
  by (auto simp: matchmaker_wf_def register_client_def Let_def list_all_update split: option.splits)

lemma register_server_wf: "matchmaker_wf mm \<Longrightarrow> register_server mm s = Inr mm' \<Longrightarrow> matchmaker_wf mm'"
  by (auto simp: matchmaker_wf_def register_server_def Let_def list_all_update split: option.splits)

lemma matchmaker_wf_get:
  "matchmaker_wf mm \<Longrightarrow> hm_get (protocol_clients mm) p = Some c \<Longrightarrow> client_protocol_name c = p"
  "matchmaker_wf mm \<Longrightarrow> hm_get (protocol_servers mm) p = Some s \<Longrightarrow> server_protocol_name s = p"
  by (auto simp: matchmaker_wf_def list_all_iff dest!: hm_get_SomeD)

lemma new_connection_loop_eq:
  "new_connection_loop port i mms =
     map (\<lambda>k. connection_task (mms ! k) port (i + 1 + of_nat k)) [0..<length mms]"
proof (induction mms arbitrary: i)
  case Nil
  then show ?case by simp
next
  case (Cons mm mms)
  have "[0..<length (mm # mms)] = 0 # map Suc [0..<length mms]"
    by (simp add: upt_conv_Cons map_Suc_upt del: upt_Suc)
  then show ?case
    using Cons.IH [of "i + 1"] by (simp add: comp_def add.assoc del: upt_Suc)
qed

section \<open>Properties\<close>

text \<open>What the loop should ask of the servers: to listen on every announced port.\<close>

fun listens :: "port_event list \<Rightarrow> server_call list" where
  "listens [] = []"
| "listens (Open port protocol # evs) = Listen protocol (SocketAddr (V4 0 0 0 0) port) port # listens evs"
| "listens (Close _ # evs) = listens evs"

lemma listens_announced: "Open port protocol \<in> set evs \<Longrightarrow> Listen protocol (SocketAddr (V4 0 0 0 0) port) port \<in> set (listens evs)"
  by (induction evs rule: listens.induct) auto

definition has_server :: "('m, 'c, 'x, 'y) matchmaker \<Rightarrow> port_event \<Rightarrow> bool" where
  "has_server mm ev \<longleftrightarrow>
     (case ev of Open _ protocol \<Rightarrow> hm_get (protocol_servers mm) protocol \<noteq> None | Close _ \<Rightarrow> True)"

lemma handle_no_ports:
  assumes "open_ports mm = []" and "matchmaker_wf mm" and "handle_port_event mm ev = (mm', calls, r)"
  shows "mm' = mm" and "\<not> has_server mm ev \<Longrightarrow> calls = [] \<and> (\<exists>e. r = Done (Inl e))"
    and "has_server mm ev \<Longrightarrow> calls = listens [ev] \<and> r = Done (Inr ())"
  using assms matchmaker_wf_get(2) [OF assms(2)]
  by (cases ev; auto simp: has_server_def rust_simps split: option.splits)+

lemma loop_no_ports:
  assumes "open_ports mm = []" and "matchmaker_wf mm"
  shows "port_event_loop mm evs =
     (mm, listens (takeWhile (has_server mm) evs),
      Panic (if list_all (has_server mm) evs then ''service manager closed the channel''
             else ''called `Result::unwrap()` on an `Err` value''))"
proof (induction evs)
  case Nil
  then show ?case by simp
next
  case (Cons ev evs)
  obtain mm1 calls r where h: "handle_port_event mm ev = (mm1, calls, r)"
    by (cases "handle_port_event mm ev") auto
  note no_ports = handle_no_ports [OF assms h]
  show ?case
  proof (cases "has_server mm ev")
    case True
    then show ?thesis
      using no_ports h Cons.IH by (cases ev) simp_all
  next
    case False
    then show ?thesis
      using no_ports h by auto
  qed
qed

text \<open>C40: What the matchmaker does with port events. Starting without open ports, it asks for a
  listener on every announced port, in order, until a protocol without a server is announced, on
  which it panics. It never records an open port, so no server is ever told to stop listening,
  whatever ports are closed.\<close>

theorem closed_ports_keep_listening:
  assumes "open_ports mm = []" and "matchmaker_wf mm"
    and "matchmaker_run send sender mm evs = (mm', calls, r)"
  shows "open_ports mm' = [] \<and> (\<forall>name port. Mute name port \<notin> set calls) \<and>
     calls = listens (takeWhile (has_server mm) evs) \<and>
     r = Panic (if list_all (has_server mm) evs then ''service manager closed the channel''
                else ''called `Result::unwrap()` on an `Err` value'')"
proof -
  let ?mm = "mm\<lparr>mm_service_manager := send_port_events_to send (mm_service_manager mm) sender\<rparr>"
  have same: "open_ports ?mm = []" "matchmaker_wf ?mm" "has_server ?mm = has_server mm"
    using assms(1,2) by (simp_all add: matchmaker_wf_def has_server_def fun_eq_iff split: port_event.split)
  have "Mute name port \<notin> set (listens es)" for name port es
    by (induction es rule: listens.induct) auto
  then show ?thesis
    using assms(3) same(1) loop_no_ports [OF same(1,2), of evs]
    by (auto simp: matchmaker_run_def same(3))
qed

theorem closed_ports_keep_listening_witness:
  "\<exists>mm' r. matchmaker_run open_channel [] ((matchmaker_new example_manager)\<lparr>protocol_servers :=
        [(''http'', \<lparr>server_protocol_name = ''http'', server_impl = ()\<rparr>)]\<rparr> :: (_, _, unit, unit) matchmaker)
       [Open 80 ''http'', Close 80] = (mm', [Listen ''http'' (SocketAddr (V4 0 0 0 0) 80) 80], r) \<and>
     open_ports mm' = []"
proof -
  let ?mm = "(matchmaker_new example_manager)\<lparr>protocol_servers :=
        [(''http'', \<lparr>server_protocol_name = ''http'', server_impl = ()\<rparr>)]\<rparr> :: (_, _, unit, unit) matchmaker"
  have o: "open_ports ?mm = []" "matchmaker_wf ?mm"
    by (simp_all add: matchmaker_new_def matchmaker_wf_def)
  obtain mm' calls r where run:
    "matchmaker_run open_channel [] ?mm [Open 80 ''http'', Close 80] = (mm', calls, r)"
    by (cases "matchmaker_run open_channel [] ?mm [Open 80 ''http'', Close 80]") auto
  show ?thesis
    using closed_ports_keep_listening [OF o run] run by (simp add: has_server_def rust_simps)
qed

text \<open>C27: Connections are balanced. While the manager is unchanged, every endpoint of a port is
  available and a client for its protocol is registered, as many consecutive connections as the
  port has endpoints attempt to connect to every endpoint exactly once, each with the client of
  the endpoint's protocol; every such task then panics, because the rest is not implemented.\<close>

theorem connections_are_balanced:
  assumes "sm_inv (mm_service_manager mm)"
    and "hm_get (port_service_map (mm_service_manager mm)) port = Some s"
    and "list_all is_available (hm_values (svc_endpoints s))"
    and "matchmaker_wf mm"
    and "\<forall>e. e \<in> set (hm_values (svc_endpoints s)) \<longrightarrow> hm_get (protocol_clients mm) (ep_protocol e) \<noteq> None"
    and "length (svc_endpoints s) < 2 ^ 64 - 1"
  shows "mset (new_connection_sender port (replicate (length (svc_endpoints s)) mm)) =
     mset (map (\<lambda>e. (Some (Connect (ep_protocol e) (ep_address e)), unimplemented))
       (hm_values (svc_endpoints s)))"
proof -
  let ?es = "hm_values (svc_endpoints s)" and ?n = "length (svc_endpoints s)"
  have "new_connection_sender port (replicate ?n mm) =
      map (connect_selected mm)
        (map (\<lambda>k. get_endpoint_for (mm_service_manager mm) port (1 + of_nat k)) [0..<?n])"
    unfolding new_connection_sender_def new_connection_loop_eq map_map comp_def connection_task_def
    by (rule map_cong) simp_all
  then have "mset (new_connection_sender port (replicate ?n mm)) =
      mset (map (connect_selected mm) (map (\<lambda>e. Done (Some (ep_address e, ep_protocol e))) ?es))"
    using balanced_selection [OF assms(1-3), of 1] assms(6) by (simp only: mset_map) simp
  also have "map (connect_selected mm) (map (\<lambda>e. Done (Some (ep_address e, ep_protocol e))) ?es) =
      map (\<lambda>e. (Some (Connect (ep_protocol e) (ep_address e)), unimplemented)) ?es"
    using assms(5) matchmaker_wf_get(1) [OF assms(4)]
    by (auto simp: connect_selected_def split: option.split)
  finally show ?thesis .
qed

theorem connections_are_balanced_witness:
  "mset (new_connection_sender 80 (replicate 2
       ((matchmaker_new example_full)\<lparr>protocol_clients :=
         [(''http'', \<lparr>client_protocol_name = ''http'', client_impl = ()\<rparr>),
          (''ssh'', \<lparr>client_protocol_name = ''ssh'', client_impl = ()\<rparr>)]\<rparr> :: (_, _, unit, unit) matchmaker))) =
   {#(Some (Connect ''http'' (example_addr 1)), unimplemented),
     (Some (Connect ''ssh'' (example_addr 2)), unimplemented)#}"
proof -
  let ?s = "snd (hd (port_service_map example_full))"
  let ?mm = "(matchmaker_new example_full)\<lparr>protocol_clients :=
         [(''http'', \<lparr>client_protocol_name = ''http'', client_impl = ()\<rparr>),
          (''ssh'', \<lparr>client_protocol_name = ''ssh'', client_impl = ()\<rparr>)]\<rparr> :: (_, _, unit, unit) matchmaker"
  have sm: "mm_service_manager ?mm = example_full"
    by (simp add: matchmaker_new_def)
  have inv: "sm_inv (mm_service_manager ?mm)"
    unfolding sm by (simp add: sm_eval example_full_def example_manager_def)
  have s: "hm_get (port_service_map (mm_service_manager ?mm)) 80 = Some ?s"
    unfolding sm by (simp add: example_full_def sm_eval)
  have vals: "hm_values (svc_endpoints ?s) = [endpoint_new True (example_addr 1) ''http'',
        endpoint_new True (example_addr 2) ''ssh'']"
    and len: "length (svc_endpoints ?s) = 2"
    by (simp_all add: example_full_def sm_eval)
  have all: "list_all is_available (hm_values (svc_endpoints ?s))"
    by (simp add: vals)
  have wf: "matchmaker_wf ?mm"
    by (simp add: matchmaker_wf_def matchmaker_new_def)
  have clients: "\<forall>e. e \<in> set (hm_values (svc_endpoints ?s)) \<longrightarrow> hm_get (protocol_clients ?mm) (ep_protocol e) \<noteq> None"
    by (simp add: vals rust_simps)
  have bound: "length (svc_endpoints ?s) < 2 ^ 64 - 1"
    by (simp add: len)
  show ?thesis
    using connections_are_balanced [OF inv s all wf clients bound] unfolding len vals by simp
qed

lemma register_clients_frame:
  "matchmaker_wf mm \<Longrightarrow> register_all register_client mm cs = Inr mm' \<Longrightarrow>
     matchmaker_wf mm' \<and> protocol_servers mm' = protocol_servers mm \<and>
     open_ports mm' = open_ports mm \<and> mm_service_manager mm' = mm_service_manager mm"
proof (induction cs arbitrary: mm)
  case Nil
  then show ?case by simp
next
  case (Cons c cs)
  then obtain mm1 where r: "register_client mm c = Inr mm1" "register_all register_client mm1 cs = Inr mm'"
    by (auto split: sum.splits)
  have "protocol_servers mm1 = protocol_servers mm \<and> open_ports mm1 = open_ports mm \<and>
      mm_service_manager mm1 = mm_service_manager mm"
    using r(1) by (auto simp: register_client_def Let_def split: option.splits)
  then show ?case
    using Cons.IH [OF register_client_wf [OF Cons.prems(1) r(1)] r(2)] by simp
qed

lemma register_servers_frame:
  "matchmaker_wf mm \<Longrightarrow> register_all register_server mm ss = Inr mm' \<Longrightarrow>
     matchmaker_wf mm' \<and> protocol_clients mm' = protocol_clients mm \<and>
     open_ports mm' = open_ports mm \<and> mm_service_manager mm' = mm_service_manager mm"
proof (induction ss arbitrary: mm)
  case Nil
  then show ?case by simp
next
  case (Cons s ss)
  then obtain mm1 where r: "register_server mm s = Inr mm1" "register_all register_server mm1 ss = Inr mm'"
    by (auto split: sum.splits)
  have "protocol_clients mm1 = protocol_clients mm \<and> open_ports mm1 = open_ports mm \<and>
      mm_service_manager mm1 = mm_service_manager mm"
    using r(1) by (auto simp: register_server_def Let_def split: option.splits)
  then show ?case
    using Cons.IH [OF register_server_wf [OF Cons.prems(1) r(1)] r(2)] by simp
qed

text \<open>Registering clients and servers. A list of clients is accepted exactly when their protocols
  are distinct and free, and the same holds of servers; a registration keeps the invariant, the
  other table, the open ports and the service manager, and adds exactly the given entries.\<close>

lemma matchmaker_registration:
  assumes "matchmaker_wf mm"
  shows "((\<exists>mm'. register_all register_client mm cs = Inr mm') \<longleftrightarrow>
      distinct (map client_protocol_name cs) \<and>
      (\<forall>c \<in> set cs. hm_get (protocol_clients mm) (client_protocol_name c) = None)) \<and>
    ((\<exists>mm'. register_all register_server mm ss = Inr mm') \<longleftrightarrow>
      distinct (map server_protocol_name ss) \<and>
      (\<forall>s \<in> set ss. hm_get (protocol_servers mm) (server_protocol_name s) = None)) \<and>
    (register_all register_client mm cs = Inr mm1 \<longrightarrow>
      matchmaker_wf mm1 \<and> protocol_servers mm1 = protocol_servers mm \<and> open_ports mm1 = open_ports mm \<and>
      hm_get (protocol_clients mm1) =
        hm_get (protocol_clients mm) ++ map_of (map (\<lambda>c. (client_protocol_name c, c)) cs)) \<and>
    (register_all register_server mm ss = Inr mm2 \<longrightarrow>
      matchmaker_wf mm2 \<and> protocol_clients mm2 = protocol_clients mm \<and> open_ports mm2 = open_ports mm \<and>
      hm_get (protocol_servers mm2) =
        hm_get (protocol_servers mm) ++ map_of (map (\<lambda>s. (server_protocol_name s, s)) ss))"
  using client_reg.register_all_iff [OF TrueI, of mm cs] server_reg.register_all_iff [OF TrueI, of mm ss]
    client_reg.register_all_lookup [OF TrueI, of mm cs mm1] server_reg.register_all_lookup [OF TrueI, of mm ss mm2]
    register_clients_frame [OF assms, of cs mm1] register_servers_frame [OF assms, of ss mm2]
  by blast

end
