(* ===== verification/Proxy_Locks.thy ===== *)
theory Proxy_Locks
  imports Lock_Discipline Matchmaking
begin

text \<open>
  The locks of the service manager (\<^verbatim>\<open>src/src/backend/mod.rs\<close>) and of the matchmaker
  (\<^verbatim>\<open>src/src/matchmaking/mod.rs\<close>): for every method that takes a lock, the sequence of acquisitions,
  releases and messages to the matchmaker's channel that one call makes. A guard is released where
  it goes out of scope in the source, which for a temporary is the end of its statement. Which
  branch a call takes depends on the data it finds under the lock; the traces have this data as
  arguments, and the system of \<open>Lock_Discipline\<close> lets every call find any data. The source asks for
  a proof of deadlock-freedom in a comment on \<^verbatim>\<open>ServiceManager\<close>.

  Calls to code outside the repository that happen under a lock (\<^verbatim>\<open>listen\<close>, \<^verbatim>\<open>mute\<close>, \<^verbatim>\<open>connect\<close>,
  \<^verbatim>\<open>run_with_sender\<close>) take no lock of these; they are synchronous and documented to hand longer work
  over to tasks of their own. There is one matchmaker and so one channel of port events, the one that
  \<^verbatim>\<open>Matchmaker::run\<close> creates and receives from; its task is task 0 of the system.
\<close>

section \<open>Locks and traces\<close>

datatype manager_lock = RegisteredNames | DiscoveryMetrics | PortServiceMap | PortEventSender

datatype matchmaker_lock = ProtocolClients | ProtocolServers | OpenPorts

type_synonym proxy_lock = "manager_lock + matchmaker_lock"

type_synonym trace = "(proxy_lock, port_event) action list"

definition PORT_NOTIFICATION_BUFFER_SIZE :: nat where
  "PORT_NOTIFICATION_BUFFER_SIZE = 8"

definition send_event_trace :: "bool \<Rightarrow> port_event \<Rightarrow> trace" where
  "send_event_trace has_sender ev = (if has_sender then [Send ev] else [])"

definition send_port_events_to_trace :: "port_map \<Rightarrow> trace" where
  "send_port_events_to_trace psm =
     [Acquire (Inl PortServiceMap) Read] @
     map (\<lambda>s. Send (Open (svc_port s) (svc_protocol s))) (hm_values psm) @
     [Acquire (Inl PortEventSender) Write, Release (Inl PortEventSender) Write,
      Release (Inl PortServiceMap) Read]"

definition get_endpoint_for_trace :: trace where
  "get_endpoint_for_trace = [Acquire (Inl PortServiceMap) Read, Release (Inl PortServiceMap) Read]"

definition register_endpoint_discovery_trace :: trace where
  "register_endpoint_discovery_trace =
     [Acquire (Inl RegisteredNames) Write, Acquire (Inl DiscoveryMetrics) Write,
      Release (Inl DiscoveryMetrics) Write, Release (Inl RegisteredNames) Write]"

fun process_event_trace :: "bool \<Rightarrow> port_map \<Rightarrow> string \<Rightarrow> endpoint_event \<Rightarrow> trace" where
  "process_event_trace has_sender psm from (Add uid avail xport xproto baddr bproto) =
     [Acquire (Inl PortServiceMap) Write] @
     (case hm_get psm xport of
        None \<Rightarrow> [Acquire (Inl PortEventSender) Read] @ send_event_trace has_sender (Open xport xproto) @
                [Release (Inl PortEventSender) Read]
      | Some _ \<Rightarrow> []) @
     [Release (Inl PortServiceMap) Write]"
| "process_event_trace has_sender psm from (Delete uid) =
     [Acquire (Inl PortServiceMap) Write, Acquire (Inl PortEventSender) Read] @
     concat (map (\<lambda>port. send_event_trace has_sender (Close port))
       (fst (snd (remove_endpoint (endpoint_id_new from uid) psm)))) @
     [Release (Inl PortEventSender) Read, Release (Inl PortServiceMap) Write]"
| "process_event_trace has_sender psm from (Suspend uid) =
     [Acquire (Inl PortServiceMap) Write, Release (Inl PortServiceMap) Write]"
| "process_event_trace has_sender psm from (Resume uid) =
     [Acquire (Inl PortServiceMap) Write, Release (Inl PortServiceMap) Write]"

definition register_client_trace :: trace where
  "register_client_trace = [Acquire (Inr ProtocolClients) Write, Release (Inr ProtocolClients) Write]"

definition register_server_trace :: trace where
  "register_server_trace = [Acquire (Inr ProtocolServers) Write, Release (Inr ProtocolServers) Write]"

text \<open>\<open>served\<close> are the protocols with a registered server. For any other protocol the handler panics under the lock;
  this is the step \<open>receiver_panic\<close> of the system, which can end every trace of the receiving task early.\<close>

fun handle_port_event_trace :: "string list \<Rightarrow> port_event \<Rightarrow> trace" where
  "handle_port_event_trace served (Open port protocol) =
     [Acquire (Inr ProtocolServers) Read] @
     (if protocol \<in> set served then [Acquire (Inr OpenPorts) Read, Release (Inr OpenPorts) Read] else []) @
     [Release (Inr ProtocolServers) Read]"
| "handle_port_event_trace served (Close port) =
     [Acquire (Inr OpenPorts) Write, Release (Inr OpenPorts) Write]"

definition connection_task_trace :: "(socket_addr \<times> string) option outcome \<Rightarrow> trace" where
  "connection_task_trace selected =
     get_endpoint_for_trace @
     (case selected of
        Done (Some _) \<Rightarrow> [Acquire (Inr ProtocolClients) Read, Release (Inr ProtocolClients) Read]
      | _ \<Rightarrow> [])"

text \<open>What the tasks of the proxy run, and what the task of \<^verbatim>\<open>Matchmaker::run\<close> runs for each event.\<close>

inductive proxy_operation :: "trace \<Rightarrow> bool" where
  "proxy_operation (send_port_events_to_trace psm)"
| "proxy_operation get_endpoint_for_trace"
| "proxy_operation register_endpoint_discovery_trace"
| "proxy_operation (process_event_trace has_sender psm from ev)"
| "proxy_operation register_client_trace"
| "proxy_operation register_server_trace"
| "proxy_operation (connection_task_trace selected)"

inductive port_event_handler :: "port_event \<Rightarrow> trace \<Rightarrow> bool" where
  "port_event_handler ev (handle_port_event_trace served ev)"

inductive_simps port_event_handler_simps: "port_event_handler ev p"

abbreviation "proxy_progress \<equiv> progress PORT_NOTIFICATION_BUFFER_SIZE port_event_handler"

abbreviation "proxy_reachable \<equiv> reachable PORT_NOTIFICATION_BUFFER_SIZE port_event_handler proxy_operation"

section \<open>The order of the locks\<close>

text \<open>The channel ranks between the locks of the manager and those of the matchmaker.\<close>

fun lock_rank :: "proxy_lock \<Rightarrow> nat" where
  "lock_rank (Inl RegisteredNames) = 0"
| "lock_rank (Inl DiscoveryMetrics) = 1"
| "lock_rank (Inl PortServiceMap) = 2"
| "lock_rank (Inl PortEventSender) = 3"
| "lock_rank (Inr ProtocolServers) = 5"
| "lock_rank (Inr OpenPorts) = 6"
| "lock_rank (Inr ProtocolClients) = 7"

definition channel_rank :: nat where
  "channel_rank = 4"

lemmas trace_defs =
  send_port_events_to_trace_def get_endpoint_for_trace_def register_endpoint_discovery_trace_def
  register_client_trace_def register_server_trace_def connection_task_trace_def send_event_trace_def
  channel_rank_def

lemma send_events_trace:
  "concat (map (\<lambda>p. send_event_trace b (f p)) ps) = map (\<lambda>p. Send (f p)) (if b then ps else [])"
  by (simp add: send_event_trace_def)

lemma operation_disciplined:
  "proxy_operation p \<Longrightarrow> disciplined lock_rank channel_rank p \<and> guards p = []"
proof (induction rule: proxy_operation.induct)
  case (4 b psm name ev)
  show ?case
  proof (cases ev)
    case (Add uid avail xport xproto baddr bproto)
    then show ?thesis by (auto simp: trace_defs split: option.split)
  next
    case (Delete uid)
    then show ?thesis by (simp add: send_events_trace channel_rank_def)
  qed simp_all
qed (auto simp: trace_defs split: outcome.split option.split)

lemma handler_disciplined:
  "port_event_handler ev p \<Longrightarrow> disciplined lock_rank channel_rank p \<and> guards p = [] \<and>
     list_all (receiver_action lock_rank channel_rank) p \<and> work 6 p \<le> 6"
  by (cases ev) (auto simp: port_event_handler_simps channel_rank_def receiver_action_def)

interpretation proxy_locks: lock_discipline lock_rank channel_rank PORT_NOTIFICATION_BUFFER_SIZE 6
  port_event_handler proxy_operation
proof unfold_locales
  show "0 < PORT_NOTIFICATION_BUFFER_SIZE" by (simp add: PORT_NOTIFICATION_BUFFER_SIZE_def)
  show "\<exists>p. port_event_handler ev p" for ev by (blast intro: port_event_handler.intros)
qed (fact operation_disciplined handler_disciplined)+

text \<open>Which lock is held throughout a method.\<close>

lemma inside_process_event:
  assumes "inside q (process_event_trace b psm from ev)"
  shows "(Inl PortServiceMap, Write) \<in> set (guards q)"
proof (cases ev)
  case (Add uid avail xport xproto baddr bproto)
  show ?thesis
    by (rule inside_guarded [OF assms, where body = "case hm_get psm xport of
        None \<Rightarrow> [Acquire (Inl PortEventSender) Read] @ send_event_trace b (Open xport xproto) @ [Release (Inl PortEventSender) Read]
      | Some _ \<Rightarrow> []"])
       (simp_all add: Add send_event_trace_def split: option.split)
next
  case (Delete uid)
  show ?thesis
    by (rule inside_guarded [OF assms, where body = "[Acquire (Inl PortEventSender) Read] @
        concat (map (\<lambda>port. send_event_trace b (Close port)) (fst (snd (remove_endpoint (endpoint_id_new from uid) psm)))) @
        [Release (Inl PortEventSender) Read]"])
       (simp_all add: Delete send_event_trace_def image_iff)
qed (rule inside_guarded [OF assms, where body = "[]"]; simp)+

lemma inside_get_endpoint_for: "inside q get_endpoint_for_trace \<Longrightarrow> (Inl PortServiceMap, Read) \<in> set (guards q)"
  by (erule inside_guarded [where body = "[]"]) (simp_all add: get_endpoint_for_trace_def)

lemma inside_send_port_events_to:
  "inside q (send_port_events_to_trace psm) \<Longrightarrow> (Inl PortServiceMap, Read) \<in> set (guards q)"
  by (erule inside_guarded [where body = "map (\<lambda>s. Send (Open (svc_port s) (svc_protocol s))) (hm_values psm) @
        [Acquire (Inl PortEventSender) Write, Release (Inl PortEventSender) Write]"])
     (auto simp: send_port_events_to_trace_def)

lemma inside_register:
  "inside q register_endpoint_discovery_trace \<Longrightarrow> (Inl RegisteredNames, Write) \<in> set (guards q)"
  by (erule inside_guarded) (auto simp: register_endpoint_discovery_trace_def)

section \<open>Traces and methods\<close>

text \<open>The trace of an event sends what the method sends.\<close>

lemma trace_sends:
  assumes "hm_wf (port_service_map sm)" and "process_event send sm from ev = (sm', Done w)"
  shows "run_all (accept send) (port_event_sender sm)
      (sends_of (process_event_trace (port_event_sender sm \<noteq> None) (port_service_map sm) from ev)) =
    Some (port_event_sender sm')"
proof (cases ev)
  case (Add uid avail xport xproto baddr bproto)
  then show ?thesis
    using assms(2)
    by (auto simp: process_add_def Let_def send_event_trace_def accept_def send_event_def
        split: option.splits outcome.splits)
next
  case (Delete uid)
  have ports: "fst (snd (remove_endpoint eid psm)) = ports_to_close eid psm" for eid psm
    by (simp add: remove_endpoint_eq ports_to_close_def)
  from Delete assms(2) have "process_delete send sm from uid = (sm', Done w)" by simp
  with assms(1) show ?thesis
    by (rule process_delete_cases) (auto simp: Delete send_events_trace ports)
qed (use assms(2) in \<open>auto simp: event_defs\<close>)

text \<open>When the channel accepts them all, the method returns.\<close>

lemma refused_send_panics:
  assumes "hm_wf (port_service_map sm)" and "process_event send sm from ev = (sm', Panic p)"
  shows "run_all (accept send) (port_event_sender sm)
      (sends_of (process_event_trace (port_event_sender sm \<noteq> None) (port_service_map sm) from ev)) = None"
proof (cases ev)
  case (Add uid avail xport xproto baddr bproto)
  then show ?thesis
    using assms(2)
    by (auto simp: process_add_def Let_def send_event_trace_def accept_def send_event_def
        split: option.splits outcome.splits)
next
  case (Delete uid)
  have ports: "fst (snd (remove_endpoint eid psm)) = ports_to_close eid psm" for eid psm
    by (simp add: remove_endpoint_eq ports_to_close_def)
  from Delete assms(2) have "process_delete send sm from uid = (sm', Panic p)" by simp
  with assms(1) show ?thesis
  proof (rule process_delete_cases)
    fix pre q rest c'
    assume *: "ports_to_close (endpoint_id_new from uid) (port_service_map sm) = pre @ q # rest"
      "run_all (accept send) (port_event_sender sm) (map Close pre) = Some c'" "accept send c' (Close q) = None"
    then have "port_event_sender sm \<noteq> None" by (cases "port_event_sender sm") auto
    with * show ?thesis by (auto simp: Delete send_events_trace send_event_trace_def ports run_all_append)
  qed auto
qed (use assms(2) in \<open>auto simp: event_defs\<close>)

section \<open>Properties\<close>

text \<open>A discovery event is being processed under the write lock while a connection waits for an
  endpoint.\<close>

definition contended :: "(proxy_lock, port_event) system" where
  "contended =
     \<lparr>programs = [[],
        [Acquire (Inl PortEventSender) Read, Send (Open 80 ''http''),
         Release (Inl PortEventSender) Read, Release (Inl PortServiceMap) Write],
        [Await (Inl PortServiceMap) Read, Release (Inl PortServiceMap) Read]],
      held = (\<lambda>_. [])(Inl PortServiceMap := [(1, Write)]),
      waiting = (\<lambda>_. [])(Inl PortServiceMap := [(2, Read)]),
      queue = [], closed = False\<rparr>"

lemma contended_reachable: "proxy_reachable contended"
proof -
  let ?l = "Inl PortServiceMap :: proxy_lock"
  let ?p = "process_event_trace True [] ''k8s'' (Add ''u'' True 80 ''http'' (SocketAddr (V4 10 0 0 1) 80) ''http'')"
  let ?q = "[Acquire (Inl PortEventSender) Read, Send (Open 80 ''http''),
         Release (Inl PortEventSender) Read, Release ?l Write] :: trace"
  let ?s = "\<lambda>p q h w. \<lparr>programs = [[], p, q], held = (\<lambda>_. [])(?l := h), waiting = (\<lambda>_. [])(?l := w),
      queue = [], closed = False\<rparr> :: (proxy_lock, port_event) system"
  let ?wait = "Await ?l Write # ?q"
  have "?p = Acquire ?l Write # ?q" by (simp add: send_event_trace_def rust_simps)
  then have op: "proxy_operation (Acquire ?l Write # ?q)" by (metis proxy_operation.intros(4))
  have new: "system_new 3 = ?s [] [] [] []"
    by (simp add: system_new_def numeral_3_eq_3 fun_eq_iff)
  have "environment proxy_operation (?s [] [] [] []) (?s (Acquire ?l Write # ?q) [] [] [])"
    using environment.start [of 1 "?s [] [] [] []" proxy_operation "Acquire ?l Write # ?q"] op
    by (simp add: task_of_def set_task_def)
  moreover have "proxy_reachable (?s [] [] [] [])"
    unfolding new [symmetric] by (rule reachable.initial) simp
  ultimately have "proxy_reachable (?s (Acquire ?l Write # ?q) [] [] [])"
    by (blast intro: reachable.intrude)
  moreover have "proxy_progress (?s (Acquire ?l Write # ?q) [] [] []) (?s ?wait [] [] [(1, Write)])"
    using progress.request [of "?s (Acquire ?l Write # ?q) [] [] []" 1 ?l Write ?q]
    by (simp add: task_of_def set_task_def)
  moreover have "proxy_progress (?s ?wait [] [] [(1, Write)]) (?s ?q [] [(1, Write)] [])"
    using progress.grant [of "?s ?wait [] [] [(1, Write)]" 1 ?l Write ?q "[]"]
    by (simp add: task_of_def set_task_def)
  ultimately have "proxy_reachable (?s ?q [] [(1, Write)] [])"
    by (blast intro: reachable.advance)
  moreover have "environment proxy_operation (?s ?q [] [(1, Write)] [])
      (?s ?q get_endpoint_for_trace [(1, Write)] [])"
    using environment.start [of 2 "?s ?q [] [(1, Write)] []" proxy_operation get_endpoint_for_trace]
    by (simp add: proxy_operation.intros task_of_def set_task_def)
  moreover have "proxy_progress (?s ?q get_endpoint_for_trace [(1, Write)] []) contended"
    using progress.request [of "?s ?q get_endpoint_for_trace [(1, Write)] []" 2 ?l Read "[Release ?l Read]"]
    by (simp add: task_of_def set_task_def get_endpoint_for_trace_def contended_def)
  ultimately show ?thesis
    by (blast intro: reachable.advance reachable.intrude)
qed

text \<open>C30: The traces are those of the methods. Whenever an event is processed without a panic, the port
  event channel is left as if it had been sent exactly the messages of the event's lock trace; and what
  a new listener is sent are the messages of its trace.\<close>

theorem traces_send_what_methods_send:
  assumes "sm_wf sm" and "process_event send sm from ev = (sm', Done w)"
  shows "run_all (accept send) (port_event_sender sm)
      (sends_of (process_event_trace (port_event_sender sm \<noteq> None) (port_service_map sm) from ev)) =
        Some (port_event_sender sm') \<and>
    send_open_events send c (hm_values (port_service_map sm)) =
      run_all send c (sends_of (send_port_events_to_trace (port_service_map sm)))"
  using trace_sends [OF sm_wf_hm_wf [OF assms(1)] assms(2)]
  by (simp add: send_open_events_run_all send_port_events_to_trace_def)

theorem traces_send_what_methods_send_witness:
  "sends_of (process_event_trace True (port_service_map example_run) ''test'' (Delete ''1'')) = [Close 443] \<and>
   run_all (accept open_channel) (port_event_sender example_run)
      (sends_of (process_event_trace True (port_service_map example_run) ''test'' (Delete ''1''))) =
     Some (port_event_sender (fst (process_event open_channel example_run ''test'' (Delete ''1''))))"
proof -
  let ?ev = "Delete ''1''"
  have wf: "sm_wf example_run" using sm_reachable_wf [OF example_run_reachable] .
  obtain sm' w where e: "process_event open_channel example_run ''test'' ?ev = (sm', Done w)"
    by (simp add: sm_eval example_run_def)
  have "(port_event_sender example_run \<noteq> None) = True" by (simp add: example_run_def)
  from traces_send_what_methods_send [OF wf e, of "[]", unfolded this, THEN conjunct1]
  have "run_all (accept open_channel) (port_event_sender example_run)
      (sends_of (process_event_trace True (port_service_map example_run) ''test'' ?ev)) =
    Some (port_event_sender (fst (process_event open_channel example_run ''test'' ?ev)))"
    unfolding e by simp
  moreover have "sends_of (process_event_trace True (port_service_map example_run) ''test'' ?ev) = [Close 443]"
    by (simp add: sm_eval example_run_def send_event_trace_def)
  ultimately show ?thesis by blast
qed

text \<open>C6: Deadlock freedom. However the operations of the manager and the matchmaker interleave,
  and whatever tasks panic in between, as long as one task is in the middle of an operation some
  task can take a step: no group of tasks waits for each other's locks, nor for room in a port event
  channel whose receiver waits for them.\<close>

theorem locks_never_deadlock:
  assumes "proxy_reachable s" and "task_of s t \<noteq> []"
  shows "\<exists>s'. proxy_progress s s'"
  using proxy_locks.no_deadlock [OF proxy_locks.inv_reachable [OF assms(1)] assms(2)] .

theorem locks_never_deadlock_witness: "\<exists>s'. proxy_progress contended s'"
  using locks_never_deadlock [OF contended_reachable, of 1] by (simp add: contended_def task_of_def)

text \<open>C11: Every operation completes. From every reachable state the number of steps that running
  operations can still cause is bounded, and when no more step is possible every operation has
  finished, no lock is held or waited for, and the matchmaker has received every port event that was
  sent; such a state is reached.\<close>

theorem operations_complete:
  assumes "proxy_reachable s"
  shows "(\<forall>k s'. (proxy_progress ^^ k) s s' \<longrightarrow> k \<le> system_work 6 s) \<and>
    (\<forall>k s'. (proxy_progress ^^ k) s s' \<and> (\<nexists>s''. proxy_progress s' s'') \<longrightarrow> quiescent s') \<and>
    (\<exists>k s'. (proxy_progress ^^ k) s s' \<and> quiescent s')"
proof -
  note inv = proxy_locks.inv_reachable [OF assms]
  show ?thesis
    using proxy_locks.bounded_run [OF inv] proxy_locks.stuck_quiescent proxy_locks.can_finish [OF inv]
    by (meson add_leE)
qed

theorem operations_complete_witness:
  "(\<nexists>s'. (proxy_progress ^^ 15) contended s') \<and>
   (\<exists>k s'. (proxy_progress ^^ k) contended s' \<and> quiescent s')"
proof -
  have "system_work 6 contended < 15"
    by (simp add: system_work_def contended_def)
  then show ?thesis
    using operations_complete [OF contended_reachable] by (meson not_less)
qed

text \<open>C12: Exclusive changes. While a task is anywhere in the middle of processing an endpoint event, it alone
  holds the lock on the port map: no other task is in the middle of processing an event, of selecting an endpoint or of
  announcing the services to a new listener. And no two tasks are in the middle of a registration. This
  is why these methods are single steps of the other theories.\<close>

theorem map_changes_are_exclusive:
  assumes "proxy_reachable s" and "t' \<noteq> t"
  shows "(inside (settle (task_of s t)) (process_event_trace b psm from ev) \<longrightarrow>
      held s (Inl PortServiceMap) = [(t, Write)] \<and>
      \<not> inside (settle (task_of s t')) (process_event_trace b' psm' from' ev') \<and>
      \<not> inside (settle (task_of s t')) get_endpoint_for_trace \<and>
      \<not> inside (settle (task_of s t')) (send_port_events_to_trace psm')) \<and>
    (inside (settle (task_of s t)) register_endpoint_discovery_trace \<longrightarrow>
      \<not> inside (settle (task_of s t')) register_endpoint_discovery_trace)"
proof -
  have inv: "held_inv s"
    using proxy_locks.inv_reachable [OF assms(1)] by (simp add: lock_inv_def)
  have held: "(l, m) \<in> set (guards (settle (task_of s x))) \<longleftrightarrow> (x, m) \<in> set (held s l)" for l m x
    using inv by (simp add: held_inv_def)
  have alone: "held s l = [(t, Write)]" if "(t, Write) \<in> set (held s l)" for l
    using inv that by (simp add: held_inv_def)
  have other: "(t', m) \<notin> set (held s l)" if "(t, Write) \<in> set (held s l)" for l m
    using alone [OF that] assms(2) by simp
  show ?thesis
    using inside_process_event [of "settle (task_of s t)"] inside_process_event [of "settle (task_of s t')"]
      inside_get_endpoint_for [of "settle (task_of s t')"] inside_send_port_events_to [of "settle (task_of s t')"]
      inside_register [of "settle (task_of s t)"] inside_register [of "settle (task_of s t')"] alone other
    unfolding held by blast
qed

theorem map_changes_are_exclusive_witness:
  "inside (settle (task_of contended 1))
      (process_event_trace True [] ''k8s'' (Add ''u'' True 80 ''http'' (SocketAddr (V4 10 0 0 1) 80) ''http'')) \<and>
   held contended (Inl PortServiceMap) = [(1, Write)] \<and> \<not> inside (settle (task_of contended 2)) get_endpoint_for_trace"
proof -
  let ?p = "process_event_trace True [] ''k8s'' (Add ''u'' True 80 ''http'' (SocketAddr (V4 10 0 0 1) 80) ''http'')"
  have "inside (settle (task_of contended 1)) ?p"
    by (simp add: inside_def strict_suffix_def suffix_Cons contended_def task_of_def send_event_trace_def rust_simps)
  then show ?thesis
    using map_changes_are_exclusive [OF contended_reachable, of 2 1 True "[]" "''k8s''"] by fastforce
qed

end
