(* ===== verification/Proxy_Pipeline.thy ===== *)
theory Proxy_Pipeline
  imports Discovery_Pipeline Proxy_Locks
begin

text \<open>
  The discovery tasks, their bounded channels, the listener tasks of the service manager
  (\<^verbatim>\<open>src/src/backend/mod.rs\<close>) and the channel of port events to the matchmaker
  (\<^verbatim>\<open>src/src/matchmaking/mod.rs\<close>) as one concurrent system. \<open>register_endpoint_discovery\<close> gives every task
  a channel of \<open>ENDPOINT_EVENT_BUFFER_SIZE\<close> and starts its listener; from then on the tasks send, wait
  while their channel is full, and end, by which their channel closes. A discovery task is the list
  of events it has yet to send, which \<open>Kubernetes_Plan\<close> computes from a watch stream.

  A listener runs the rounds of \<open>listen_for_discovery_events\<close> one by one (\<open>listen_event\<close>): it receives
  an event, returns if the manager is gone (\<open>Weak::upgrade\<close>), waits for the write lock on the port
  map, sends the port events of the event one after the other, waiting while the channel to the
  matchmaker is full, and releases the lock; it panics when the receiver of port events is gone, and
  when its own channel is closed. The port map changes for the other tasks when the lock is released.
  The messages that \<open>port_event_sender\<close> has accepted are its state, as in \<open>open_channel\<close>.

  Outside events: the receiver of port events goes away (the task of \<^verbatim>\<open>Matchmaker::run\<close> ends), and the
  last owner of the manager besides the listeners drops it.
\<close>

section \<open>The system\<close>

definition ENDPOINT_EVENT_BUFFER_SIZE :: nat where
  "ENDPOINT_EVENT_BUFFER_SIZE = 1024"

text \<open>Where a listener is: in \<^verbatim>\<open>recv\<close>, in \<^verbatim>\<open>write\<close> of the port map, in \<^verbatim>\<open>process_event\<close> with the number of port
  events it has sent for the event, or at its end.\<close>

datatype listener_state =
    Waiting
  | Locking endpoint_event
  | Processing endpoint_event nat
  | Stopped "unit outcome"

fun in_hand :: "listener_state \<Rightarrow> endpoint_event list" where
  "in_hand (Locking e) = [e]"
| "in_hand (Processing e n) = [e]"
| "in_hand _ = []"

record discovery_task =
  task_name :: string
  pending :: "endpoint_event list"
  buffer :: "endpoint_event list"
  listener :: listener_state

record 'm pipeline =
  pl_manager :: "('m, port_event list) service_manager"
  pl_tasks :: "discovery_task list"
  port_writer :: "nat option"
  port_queue :: "port_event list"
  port_received :: "port_event list"
  pl_receiving :: bool
  pl_owned :: bool

definition discovery_task_new :: "string \<times> endpoint_event list \<Rightarrow> discovery_task" where
  "discovery_task_new d = \<lparr>task_name = fst d, pending = snd d, buffer = [], listener = Waiting\<rparr>"

definition port_history :: "('m, port_event list) service_manager \<Rightarrow> port_event list" where
  "port_history sm = (case port_event_sender sm of None \<Rightarrow> [] | Some h \<Rightarrow> h)"

text \<open>The registration of the tasks. The matchmaker has received what was sent before.\<close>

definition pipeline_new ::
    "'m \<Rightarrow> ('m, port_event list) service_manager \<Rightarrow> (string \<times> endpoint_event list) list \<Rightarrow>
     register_error + 'm pipeline" where
  "pipeline_new new_metrics sm scripts =
     (case register_all (\<lambda>sm task. register_endpoint_discovery (snd task) sm (fst task)) sm
             (map (\<lambda>d. (fst d, new_metrics)) scripts) of
        Inl err \<Rightarrow> Inl err
      | Inr sm' \<Rightarrow> Inr \<lparr>pl_manager = sm', pl_tasks = map discovery_task_new scripts, port_writer = None,
          port_queue = [], port_received = port_history sm, pl_receiving = True, pl_owned = True\<rparr>)"

definition update_task :: "nat \<Rightarrow> discovery_task \<Rightarrow> 'm pipeline \<Rightarrow> 'm pipeline" where
  "update_task i t s = s\<lparr>pl_tasks := (pl_tasks s)[i := t]\<rparr>"

text \<open>The manager lives as long as it has an owner or a listener holds the result of its \<^verbatim>\<open>upgrade\<close>.\<close>

definition upgrade :: "'m pipeline \<Rightarrow> bool" where
  "upgrade s \<longleftrightarrow> pl_owned s \<or> list_ex (\<lambda>t. in_hand (listener t) \<noteq> []) (pl_tasks s)"

text \<open>The port events that processing an event sends, and the channel that has accepted \<open>n\<close> of them.\<close>

definition port_messages ::
    "('m, port_event list) service_manager \<Rightarrow> string \<Rightarrow> endpoint_event \<Rightarrow> port_event list" where
  "port_messages sm from event =
     sends_of (process_event_trace (port_event_sender sm \<noteq> None) (port_service_map sm) from event)"

definition accepting ::
    "('m, port_event list) service_manager \<Rightarrow> nat \<Rightarrow> port_event list \<Rightarrow> port_event \<Rightarrow> port_event list option" where
  "accepting sm n = take_channel (length (port_history sm) + n)"

inductive pipeline_step :: "(bool \<Rightarrow> 'm \<Rightarrow> 'm) \<Rightarrow> 'm pipeline \<Rightarrow> 'm pipeline \<Rightarrow> bool"
  for meter :: "bool \<Rightarrow> 'm \<Rightarrow> 'm" where
  deliver: "i < length (pl_tasks s) \<Longrightarrow> t = pl_tasks s ! i \<Longrightarrow> pending t = e # es \<Longrightarrow>
     \<forall>r. listener t \<noteq> Stopped r \<Longrightarrow> length (buffer t) < ENDPOINT_EVENT_BUFFER_SIZE \<Longrightarrow>
     pipeline_step meter s (update_task i (t\<lparr>pending := es, buffer := buffer t @ [e]\<rparr>) s)"
| refuse: "i < length (pl_tasks s) \<Longrightarrow> t = pl_tasks s ! i \<Longrightarrow> pending t = e # es \<Longrightarrow>
     listener t = Stopped r \<Longrightarrow>
     pipeline_step meter s (update_task i (t\<lparr>pending := []\<rparr>) s)"
| receive: "i < length (pl_tasks s) \<Longrightarrow> t = pl_tasks s ! i \<Longrightarrow> listener t = Waiting \<Longrightarrow>
     buffer t = e # q \<Longrightarrow> upgrade s \<Longrightarrow>
     pipeline_step meter s (update_task i (t\<lparr>buffer := q, listener := Locking e\<rparr>) s)"
| leave: "i < length (pl_tasks s) \<Longrightarrow> t = pl_tasks s ! i \<Longrightarrow> listener t = Waiting \<Longrightarrow>
     buffer t = e # q \<Longrightarrow> \<not> upgrade s \<Longrightarrow>
     listen_event (accepting (pl_manager s) 0) meter (task_name t) (pl_manager s) e False = (sm', Finish r) \<Longrightarrow>
     pipeline_step meter s (update_task i (t\<lparr>buffer := [], listener := Stopped r\<rparr>) (s\<lparr>pl_manager := sm'\<rparr>))"
| acquire: "i < length (pl_tasks s) \<Longrightarrow> t = pl_tasks s ! i \<Longrightarrow> listener t = Locking e \<Longrightarrow>
     port_writer s = None \<Longrightarrow>
     pipeline_step meter s (update_task i (t\<lparr>listener := Processing e 0\<rparr>) (s\<lparr>port_writer := Some i\<rparr>))"
| announce: "i < length (pl_tasks s) \<Longrightarrow> t = pl_tasks s ! i \<Longrightarrow> listener t = Processing e n \<Longrightarrow>
     ms = port_messages (pl_manager s) (task_name t) e \<Longrightarrow> n < length ms \<Longrightarrow> pl_receiving s \<Longrightarrow>
     length (port_queue s) < PORT_NOTIFICATION_BUFFER_SIZE \<Longrightarrow>
     pipeline_step meter s (update_task i (t\<lparr>listener := Processing e (Suc n)\<rparr>)
       (s\<lparr>port_queue := port_queue s @ [ms ! n]\<rparr>))"
| finish: "i < length (pl_tasks s) \<Longrightarrow> t = pl_tasks s ! i \<Longrightarrow> listener t = Processing e n \<Longrightarrow>
     listen_event (accepting (pl_manager s) n) meter (task_name t) (pl_manager s) e True = (sm', Continue) \<Longrightarrow>
     pipeline_step meter s (update_task i (t\<lparr>listener := Waiting\<rparr>)
       (s\<lparr>pl_manager := sm', port_writer := None\<rparr>))"
| crash: "i < length (pl_tasks s) \<Longrightarrow> t = pl_tasks s ! i \<Longrightarrow> listener t = Processing e n \<Longrightarrow>
     listen_event (accepting (pl_manager s) n) meter (task_name t) (pl_manager s) e True = (sm', Finish r) \<Longrightarrow>
     \<not> pl_receiving s \<Longrightarrow>
     pipeline_step meter s (update_task i (t\<lparr>buffer := [], listener := Stopped r\<rparr>)
       (s\<lparr>pl_manager := sm', port_writer := None\<rparr>))"
| close: "i < length (pl_tasks s) \<Longrightarrow> t = pl_tasks s ! i \<Longrightarrow> listener t = Waiting \<Longrightarrow>
     buffer t = [] \<Longrightarrow> pending t = [] \<Longrightarrow>
     pipeline_step meter s (update_task i (t\<lparr>listener := Stopped (listen_closed (task_name t))\<rparr>) s)"
| drain: "port_queue s = e # q \<Longrightarrow> pl_receiving s \<Longrightarrow>
     pipeline_step meter s (s\<lparr>port_queue := q, port_received := port_received s @ [e]\<rparr>)"

inductive pipeline_environment :: "'m pipeline \<Rightarrow> 'm pipeline \<Rightarrow> bool" where
  receiver_gone: "pl_receiving s \<Longrightarrow> pipeline_environment s (s\<lparr>pl_receiving := False, port_queue := []\<rparr>)"
| disown: "pl_owned s \<Longrightarrow> pipeline_environment s (s\<lparr>pl_owned := False\<rparr>)"

abbreviation pipeline_move :: "(bool \<Rightarrow> 'm \<Rightarrow> 'm) \<Rightarrow> 'm pipeline \<Rightarrow> 'm pipeline \<Rightarrow> bool" where
  "pipeline_move meter s s' \<equiv> pipeline_step meter s s' \<or> pipeline_environment s s'"

section \<open>How far an event gets\<close>

text \<open>An event is processed to its end exactly when all its port events are accepted; the sender
  then has them. Its effect on the endpoints does not depend on how far it gets.\<close>

lemma run_all_take_channel:
  "run_all (take_channel n) c es = (if length c + length es \<le> n \<or> es = [] then Some (c @ es) else None)"
  by (induction es arbitrary: c) (auto simp: take_channel_def)

lemma no_sender_no_messages: "port_event_sender sm = None \<Longrightarrow> port_messages sm from ev = []"
proof (cases ev)
  case (Delete uid)
  then show "port_event_sender sm = None \<Longrightarrow> ?thesis"
    by (simp add: port_messages_def send_events_trace)
qed (simp_all add: port_messages_def send_event_trace_def split: option.split)

lemma accepted_run:
  "run_all (accept (accepting sm n)) (port_event_sender sm) (port_messages sm from ev) =
     (if length (port_messages sm from ev) \<le> n
      then Some (map_option (\<lambda>h. h @ port_messages sm from ev) (port_event_sender sm)) else None)"
  by (cases "port_event_sender sm")
     (auto simp: no_sender_no_messages accepting_def run_all_take_channel port_history_def)

lemma accepting_contract: "channel_contract (accepting sm n) (\<lambda>h. h)"
  by (auto simp: channel_contract_def accepting_def take_channel_def split: if_splits)

lemma listen_event_cases:
  assumes "sm_wf sm" and "listen_event (accepting sm n) meter from sm ev True = (sm', next)"
  obtains (processed) "next = Continue" "length (port_messages sm from ev) \<le> n"
      "port_event_sender sm' = map_option (\<lambda>h. h @ port_messages sm from ev) (port_event_sender sm)"
      "directory_of (port_service_map sm') = dir_step from ev (directory_of (port_service_map sm))"
      "sm_inv sm \<Longrightarrow> sm_inv sm'" "in_sync (\<lambda>h. h) sm \<Longrightarrow> in_sync (\<lambda>h. h) sm'"
      "\<And>name. hm_get (endpoint_discovery_metrics sm') name =
         (if name = from then map_option (meter True) (hm_get (endpoint_discovery_metrics sm) name)
          else hm_get (endpoint_discovery_metrics sm) name)"
  | (panicked) p where "next = Finish (Panic p)" "n < length (port_messages sm from ev)"
proof -
  obtain sm1 r where e: "process_event (accepting sm n) sm from ev = (sm1, r)" by fastforce
  show ?thesis
  proof (cases r)
    case (Done w)
    note e = e [unfolded Done]
    have "run_all (accept (accepting sm n)) (port_event_sender sm) (port_messages sm from ev) = Some (port_event_sender sm1)"
      using trace_sends [OF sm_wf_hm_wf [OF assms(1)] e] by (simp add: port_messages_def)
    moreover have "in_sync (\<lambda>h. h) sm \<Longrightarrow> in_sync (\<lambda>h. h) (measured (meter True) from sm1)"
      using process_event_in_sync [OF accepting_contract sm_wf_hm_wf [OF assms(1)] _ e] in_sync_cong [of "measured _ _ sm1" sm1]
      by auto
    ultimately show ?thesis
      using assms(2) process_event_directory [OF assms(1) e] process_event_inv [OF _ e] process_event_frame(1) [OF e]
      by (intro processed) (auto simp: listen_event_def e accepted_run measured_inv hm_get_measured split: if_splits)
  next
    case (Panic p)
    have "run_all (accept (accepting sm n)) (port_event_sender sm) (port_messages sm from ev) = None"
      using refused_send_panics [OF sm_wf_hm_wf [OF assms(1)] e [unfolded Panic]] by (simp add: port_messages_def)
    then show ?thesis
      using assms(2) by (intro panicked) (auto simp: listen_event_def e Panic accepted_run split: if_splits)
  qed
qed

lemma listen_event_wf:
  assumes "sm_wf sm" and "listen_event send meter from sm ev True = (sm', next)"
  shows "sm_wf sm'" and "endpoint_at (directory_of (port_service_map sm')) p i =
     endpoint_at (dir_step from ev (directory_of (port_service_map sm))) p i"
proof -
  obtain sm1 r where e: "process_event send sm from ev = (sm1, r)" by fastforce
  show "sm_wf sm'" "endpoint_at (directory_of (port_service_map sm')) p i =
     endpoint_at (dir_step from ev (directory_of (port_service_map sm))) p i"
    using assms(2) process_event_wf [OF assms(1) e] process_event_endpoints [OF assms(1) e]
    by (auto simp: listen_event_def e measured_wf split: outcome.splits)
qed

section \<open>The invariant\<close>

text \<open>\<open>es\<close> is an order in which the events took effect. While nothing disturbs the pipeline (\<open>calm\<close>) a
  listener ends only after the last event of its task.\<close>

definition task_inv ::
    "bool \<Rightarrow> (string \<times> endpoint_event) list \<Rightarrow> string \<times> endpoint_event list \<Rightarrow> discovery_task \<Rightarrow> bool" where
  "task_inv calm es d t \<longleftrightarrow>
     task_name t = fst d \<and> length (buffer t) \<le> ENDPOINT_EVENT_BUFFER_SIZE \<and>
     (case listener t of
        Stopped _ \<Rightarrow> buffer t = [] \<and> prefix (events_of (fst d) es) (snd d) \<and>
          (calm \<longrightarrow> pending t = [] \<and> events_of (fst d) es = snd d)
      | l \<Rightarrow> events_of (fst d) es @ in_hand l @ buffer t @ pending t = snd d)"

abbreviation calm :: "'m pipeline \<Rightarrow> bool" where
  "calm s \<equiv> pl_owned s \<and> pl_receiving s"

text \<open>Exactly the holder of the write lock is processing an event.\<close>

fun is_processing :: "listener_state \<Rightarrow> bool" where
  "is_processing (Processing e n) = True"
| "is_processing _ = False"

definition writer_inv :: "'m pipeline \<Rightarrow> bool" where
  "writer_inv s \<longleftrightarrow> (\<forall>i. port_writer s = Some i \<longleftrightarrow> i < length (pl_tasks s) \<and> is_processing (listener (pl_tasks s ! i)))"

text \<open>The part of the event in process that has been announced.\<close>

definition announced_by :: "('m, port_event list) service_manager \<Rightarrow> discovery_task \<Rightarrow> port_event list" where
  "announced_by sm t = (case listener t of Processing e n \<Rightarrow> take n (port_messages sm (task_name t) e) | _ \<Rightarrow> [])"

definition announced :: "'m pipeline \<Rightarrow> port_event list" where
  "announced s = (case port_writer s of None \<Rightarrow> [] | Some i \<Rightarrow> announced_by (pl_manager s) (pl_tasks s ! i))"

definition metrics_inv ::
    "(bool \<Rightarrow> 'm \<Rightarrow> 'm) \<Rightarrow> 'm \<Rightarrow> (string \<times> endpoint_event list) list \<Rightarrow> (string \<times> endpoint_event) list \<Rightarrow>
     ('m, 'c) service_manager \<Rightarrow> bool" where
  "metrics_inv meter m scripts es sm \<longleftrightarrow>
     (\<forall>name. name \<in> fst ` set scripts \<longrightarrow>
        hm_get (endpoint_discovery_metrics sm) name = Some ((meter True ^^ length (events_of name es)) m))"

text \<open>What holds while the receiver of port events is there.\<close>

definition received_inv ::
    "('m, port_event list) service_manager \<Rightarrow> (bool \<Rightarrow> 'm \<Rightarrow> 'm) \<Rightarrow> 'm \<Rightarrow> (string \<times> endpoint_event list) list \<Rightarrow>
     (string \<times> endpoint_event) list \<Rightarrow> 'm pipeline \<Rightarrow> bool" where
  "received_inv sm meter m scripts es s \<longleftrightarrow>
     sm_inv (pl_manager s) \<and> metrics_inv meter m scripts es (pl_manager s) \<and>
     directory_of (port_service_map (pl_manager s)) = dir_run es (directory_of (port_service_map sm)) \<and>
     (in_sync (\<lambda>h. h) sm \<longrightarrow> in_sync (\<lambda>h. h) (pl_manager s)) \<and>
     port_received s @ port_queue s = port_history (pl_manager s) @ announced s"

definition pipeline_inv ::
    "('m, port_event list) service_manager \<Rightarrow> (bool \<Rightarrow> 'm \<Rightarrow> 'm) \<Rightarrow> 'm \<Rightarrow> (string \<times> endpoint_event list) list \<Rightarrow>
     (string \<times> endpoint_event) list \<Rightarrow> 'm pipeline \<Rightarrow> bool" where
  "pipeline_inv sm meter m scripts es s \<longleftrightarrow>
     distinct (map fst scripts) \<and> list_all2 (task_inv (calm s) es) scripts (pl_tasks s) \<and>
     sm_wf (pl_manager s) \<and> writer_inv s \<and>
     (\<forall>p i. endpoint_at (directory_of (port_service_map (pl_manager s))) p i =
        endpoint_at (dir_run es (directory_of (port_service_map sm))) p i) \<and>
     (pl_receiving s \<longrightarrow> received_inv sm meter m scripts es s) \<and> (\<not> pl_receiving s \<longrightarrow> port_queue s = [])"

lemma events_of_append [simp]: "events_of n (es @ es') = events_of n es @ events_of n es'"
  by (simp add: events_of_def)

lemma events_of_one [simp]: "events_of n [(n', e)] = (if n' = n then [e] else [])"
  by (simp add: events_of_def)

lemma events_of_Nil [simp]: "events_of n [] = []"
  by (simp add: events_of_def)

lemma update_task_sel [simp]:
  "pl_manager (update_task i t s) = pl_manager s" "port_writer (update_task i t s) = port_writer s"
  "port_queue (update_task i t s) = port_queue s" "port_received (update_task i t s) = port_received s"
  "pl_receiving (update_task i t s) = pl_receiving s" "pl_owned (update_task i t s) = pl_owned s"
  "pl_tasks (update_task i t s) = (pl_tasks s)[i := t]"
  by (simp_all add: update_task_def)

lemma register_all_directory:
  "register_all (\<lambda>sm task. register_endpoint_discovery (snd task) sm (fst task)) sm ds = Inr sm' \<Longrightarrow>
     sm_inv sm \<Longrightarrow> sm_inv sm' \<and> port_service_map sm' = port_service_map sm \<and> port_event_sender sm' = port_event_sender sm"
proof (induction ds arbitrary: sm)
  case (Cons d ds)
  then obtain sm1 where 1: "register_endpoint_discovery (snd d) sm (fst d) = Inr sm1"
    and rest: "register_all (\<lambda>sm task. register_endpoint_discovery (snd task) sm (fst task)) sm1 ds = Inr sm'"
    by (auto split: sum.splits)
  show ?case
    using Cons.IH [OF rest] register_inv(2) [OF 1 Cons.prems(2)] register_frame [OF 1] by simp
qed simp

lemma pipeline_inv_new:
  assumes "sm_inv sm" and "pipeline_new m sm scripts = Inr s"
  shows "pipeline_inv sm meter m scripts [] s"
proof -
  let ?ds = "map (\<lambda>d. (fst d, m)) scripts"
  obtain sm' where sm': "register_all (\<lambda>sm task. register_endpoint_discovery (snd task) sm (fst task)) sm ?ds = Inr sm'"
    and s: "s = \<lparr>pl_manager = sm', pl_tasks = map discovery_task_new scripts, port_writer = None,
          port_queue = [], port_received = port_history sm, pl_receiving = True, pl_owned = True\<rparr>"
    using assms(2) by (auto simp: pipeline_new_def split: sum.splits)
  have names: "names_wf sm" using assms(1) by (simp add: sm_inv_def sm_wf_def)
  have "map_of (map (\<lambda>x. (fst x, snd x)) ?ds) name = Some m" if "name \<in> fst ` set scripts" for name
    using that by (induction scripts) (auto simp: image_iff)
  then have "metrics_inv meter m scripts [] sm'"
    using sm_reg.register_all_lookup [OF names sm'] by (simp add: metrics_inv_def map_add_def)
  moreover from sm_reg.register_all_iff [OF names, of ?ds] sm' have "distinct (map fst scripts)"
    by (auto simp: comp_def)
  ultimately show ?thesis
    using register_all_directory [OF sm' assms(1)] in_sync_cong [of sm' sm]
    by (auto simp: pipeline_inv_def received_inv_def s sm_inv_wf list_all2_conv_all_nth task_inv_def
        discovery_task_new_def writer_inv_def announced_def port_history_def)
qed

text \<open>What a step does to one task, the others keeping their part of the invariant.\<close>

lemma list_all2_update_task:
  assumes "list_all2 (task_inv b es) scripts ts" and "i < length ts" and "distinct (map fst scripts)"
    and "task_inv b es' (scripts ! i) t'" and "\<And>n. n \<noteq> task_name (ts ! i) \<Longrightarrow> events_of n es' = events_of n es"
  shows "list_all2 (task_inv b es') scripts (ts[i := t'])"
proof (rule list_all2_all_nthI)
  show "length scripts = length (ts[i := t'])" using assms(1) by (simp add: list_all2_lengthD)
  fix j assume j: "j < length scripts"
  show "task_inv b es' (scripts ! j) (ts[i := t'] ! j)"
  proof (cases "j = i")
    case False
    have len: "length scripts = length ts" using assms(1) by (rule list_all2_lengthD)
    have "fst (scripts ! j) \<noteq> fst (scripts ! i)"
      using assms(2,3) j len False nth_eq_iff_index_eq [of "map fst scripts" j i] by simp
    moreover have "task_name (ts ! i) = fst (scripts ! i)" "task_inv b es (scripts ! j) (ts ! j)"
      using list_all2_nthD2 [OF assms(1,2)] list_all2_nthD [OF assms(1) j] by (simp_all add: task_inv_def)
    ultimately show ?thesis using assms(5) False by (simp add: task_inv_def cong: listener_state.case_cong)
  qed (use assms(2,4) in simp)
qed

lemma writer_inv_update:
  assumes "writer_inv s" and "i < length (pl_tasks s)"
    and "is_processing (listener t) = is_processing (listener (pl_tasks s ! i))"
  shows "writer_inv (update_task i t s)"
  using assms by (auto simp: writer_inv_def nth_list_update)

lemma writer_alone:
  assumes "writer_inv s" and "i < length (pl_tasks s)" and "listener (pl_tasks s ! i) = Processing e n"
  shows "port_writer s = Some i" and "announced s = take n (port_messages (pl_manager s) (task_name (pl_tasks s ! i)) e)"
proof -
  show w: "port_writer s = Some i" using assms by (simp add: writer_inv_def)
  show "announced s = take n (port_messages (pl_manager s) (task_name (pl_tasks s ! i)) e)"
    by (simp add: announced_def announced_by_def w assms(3))
qed

lemma inv_frame:
  assumes "pl_manager s' = pl_manager s" and "pl_tasks s' = pl_tasks s" and "port_writer s' = port_writer s"
  shows "announced s' = announced s" and "writer_inv s' \<longleftrightarrow> writer_inv s"
  using assms by (simp_all add: announced_def writer_inv_def split: option.split)

text \<open>Steps of a task that touch neither the manager nor the port events.\<close>

lemma pipeline_inv_task:
  assumes inv: "pipeline_inv sm meter m scripts es s" and i: "i < length (pl_tasks s)"
    and t: "task_inv (calm s) es (scripts ! i) (pl_tasks s ! i) \<Longrightarrow> task_inv (calm s) es (scripts ! i) t"
    and p: "is_processing (listener t) = is_processing (listener (pl_tasks s ! i))"
      "is_processing (listener t) \<Longrightarrow> listener t = listener (pl_tasks s ! i) \<and> task_name t = task_name (pl_tasks s ! i)"
  shows "pipeline_inv sm meter m scripts es (update_task i t s)"
proof -
  have all: "list_all2 (task_inv (calm s) es) scripts (pl_tasks s)" and d: "distinct (map fst scripts)"
    and w: "writer_inv s"
    using inv by (simp_all add: pipeline_inv_def)
  have "announced (update_task i t s) = announced s"
  proof (cases "port_writer s = Some i")
    case True
    then have "is_processing (listener (pl_tasks s ! i))" using w unfolding writer_inv_def by blast
    then show ?thesis using True p i by (auto simp: announced_def announced_by_def split: listener_state.split)
  next
    case False
    then show ?thesis by (cases "port_writer s") (simp_all add: announced_def)
  qed
  moreover have "writer_inv (update_task i t s)" using writer_inv_update [OF w i] p(1) by simp
  ultimately show ?thesis
    using inv list_all2_update_task [OF all i d t [OF list_all2_nthD2 [OF all i]]]
    by (simp add: pipeline_inv_def received_inv_def)
qed

text \<open>An event takes effect when the lock is released, whether its processing returned or panicked.\<close>

lemma pipeline_inv_release:
  assumes inv: "pipeline_inv sm meter m scripts es s" and i: "i < length (pl_tasks s)"
    and l: "listener (pl_tasks s ! i) = Processing e n"
    and e: "listen_event (accepting (pl_manager s) n) meter (task_name (pl_tasks s ! i)) (pl_manager s) e True = (sm', next)"
    and t: "task_inv (calm s) (es @ [(task_name (pl_tasks s ! i), e)]) (scripts ! i) t" "\<not> is_processing (listener t)"
    and returned: "next = Continue \<or> \<not> pl_receiving s"
  shows "pipeline_inv sm meter m scripts (es @ [(task_name (pl_tasks s ! i), e)])
     (update_task i t (s\<lparr>pl_manager := sm', port_writer := None\<rparr>))"
proof -
  let ?name = "task_name (pl_tasks s ! i)" and ?es = "es @ [(task_name (pl_tasks s ! i), e)]"
  let ?s = "update_task i t (s\<lparr>pl_manager := sm', port_writer := None\<rparr>)"
  have all: "list_all2 (task_inv (calm s) es) scripts (pl_tasks s)" and d: "distinct (map fst scripts)"
    and w: "writer_inv s" and wf: "sm_wf (pl_manager s)"
    and ep: "\<And>p i. endpoint_at (directory_of (port_service_map (pl_manager s))) p i =
      endpoint_at (dir_run es (directory_of (port_service_map sm))) p i"
    and q: "pl_receiving s \<Longrightarrow> received_inv sm meter m scripts es s" "\<not> pl_receiving s \<Longrightarrow> port_queue s = []"
    using inv by (simp_all add: pipeline_inv_def)
  have "list_all2 (task_inv (calm s) ?es) scripts ((pl_tasks s)[i := t])"
    by (rule list_all2_update_task [OF all i d t(1)]) auto
  moreover have "port_writer s = Some j \<longleftrightarrow> j < length (pl_tasks s) \<and> is_processing (listener (pl_tasks s ! j))" for j
    using w by (simp add: writer_inv_def)
  then have "writer_inv ?s"
    using t(2) i writer_alone(1) [OF w i l] by (auto simp: writer_inv_def nth_list_update)
  moreover have "received_inv sm meter m scripts ?es ?s" if "pl_receiving s"
    using wf e
  proof (cases rule: listen_event_cases)
    case processed
    have r: "received_inv sm meter m scripts es s" using q that by simp
    then have "port_history sm' @ announced ?s = port_received ?s @ port_queue ?s"
      using processed(2,3) no_sender_no_messages [of "pl_manager s"]
      by (auto simp: received_inv_def port_history_def writer_alone(2) [OF w i l] announced_def [of ?s] split: option.split)
    then show ?thesis
      using r processed by (auto simp: received_inv_def metrics_inv_def)
  qed (use returned that in auto)
  moreover have "endpoint_at (directory_of (port_service_map sm')) p i =
      endpoint_at (dir_step ?name e (dir_run es (directory_of (port_service_map sm)))) p i" for p i
    unfolding listen_event_wf(2) [OF wf e] by (rule endpoint_at_step_cong) (simp add: ep)
  ultimately show ?thesis
    using d listen_event_wf(1) [OF wf e] q by (simp add: pipeline_inv_def)
qed

lemma pipeline_inv_step:
  assumes inv: "pipeline_inv sm meter m scripts es s" and "pipeline_step meter s s'"
  shows "\<exists>es'. pipeline_inv sm meter m scripts es' s'"
proof -
  have all: "list_all2 (task_inv (calm s) es) scripts (pl_tasks s)" and w: "writer_inv s"
    using inv by (simp_all add: pipeline_inv_def)
  have ti: "task_inv (calm s) es (scripts ! i) (pl_tasks s ! i)" if "i < length (pl_tasks s)" for i
    using list_all2_nthD2 [OF all that] .
  from assms(2) show ?thesis
  proof cases
    case (deliver i t e qs)
    then show ?thesis
      by (intro exI [of _ es]) (auto intro!: pipeline_inv_task [OF inv] simp: task_inv_def split: listener_state.splits)
  next
    case (refuse i t e qs r)
    then show ?thesis
      by (intro exI [of _ es]) (auto intro!: pipeline_inv_task [OF inv] simp: task_inv_def)
  next
    case (receive i t e q)
    then show ?thesis
      by (intro exI [of _ es]) (auto intro!: pipeline_inv_task [OF inv] simp: task_inv_def)
  next
    case (leave i t e q sm' r)
    have sm': "s\<lparr>pl_manager := sm'\<rparr> = s" using leave(7) by (auto simp: listen_event_def)
    show ?thesis
      unfolding leave(1) sm' using leave(2-6)
      by (intro exI [of _ es]) (auto intro!: pipeline_inv_task [OF inv] prefixI [OF sym] simp: task_inv_def upgrade_def)
  next
    case (acquire i t e)
    have idle: "\<not> is_processing (listener (pl_tasks s ! j))" if "j < length (pl_tasks s)" for j
      using w that acquire(5) by (simp add: writer_inv_def)
    have d: "distinct (map fst scripts)" using inv by (simp add: pipeline_inv_def)
    have "task_inv (calm s) es (scripts ! i) (t\<lparr>listener := Processing e 0\<rparr>)"
      using ti [OF acquire(2)] acquire(3,4) by (auto simp: task_inv_def)
    from list_all2_update_task [OF all acquire(2) d this]
    show ?thesis
      using inv acquire idle
      by (intro exI [of _ es])
        (auto simp: pipeline_inv_def received_inv_def announced_def announced_by_def writer_inv_def nth_list_update)
  next
    case (announce i t e n ms)
    have d: "distinct (map fst scripts)" using inv by (simp add: pipeline_inv_def)
    have "task_inv (calm s) es (scripts ! i) (t\<lparr>listener := Processing e (Suc n)\<rparr>)"
      using ti [OF announce(2)] announce(3,4) by (auto simp: task_inv_def)
    from list_all2_update_task [OF all announce(2) d this]
    have tasks: "list_all2 (task_inv (calm s') es) scripts (pl_tasks s')" by (simp add: announce(1))
    have w': "writer_inv s'"
      unfolding announce(1) using announce(2-4) inv_frame(2) [of _ s] w by (auto intro!: writer_inv_update)
    from writer_alone(2) [OF this, of i e "Suc n"]
    have "announced s' = announced s @ [ms ! n]"
      using announce writer_alone(2) [OF w announce(2), of e n] by (simp add: take_Suc_conv_app_nth)
    then show ?thesis
      using inv announce w' tasks by (intro exI [of _ es]) (simp add: pipeline_inv_def received_inv_def flip: append_assoc)
  next
    case (finish i t e n sm')
    have "task_inv (calm s) (es @ [(task_name t, e)]) (scripts ! i) (t\<lparr>listener := Waiting\<rparr>)"
      using ti [OF finish(2)] finish(3,4) by (auto simp: task_inv_def)
    from pipeline_inv_release [OF inv finish(2) finish(4,5) [unfolded finish(3)] this [unfolded finish(3)]]
    show ?thesis by (auto simp: finish(1,3))
  next
    case (crash i t e n sm' r)
    have "task_inv (calm s) (es @ [(task_name t, e)]) (scripts ! i) (t\<lparr>buffer := [], listener := Stopped r\<rparr>)"
      using ti [OF crash(2)] crash(3,4,6) by (auto simp: task_inv_def intro!: prefixI [where zs = "buffer t @ pending t"])
    from pipeline_inv_release [OF inv crash(2) crash(4,5) [unfolded crash(3)] this [unfolded crash(3)]] crash(6)
    show ?thesis by (auto simp: crash(1,3))
  next
    case (close i t)
    then show ?thesis
      by (intro exI [of _ es]) (auto intro!: pipeline_inv_task [OF inv] simp: task_inv_def)
  next
    case (drain e q)
    then show ?thesis
      using inv inv_frame [of s' s] by (intro exI [of _ es]) (auto simp: pipeline_inv_def received_inv_def)
  qed
qed

lemma task_inv_mono: "task_inv b es d t \<Longrightarrow> (b' \<Longrightarrow> b) \<Longrightarrow> task_inv b' es d t"
  by (auto simp: task_inv_def split: listener_state.splits)

lemma pipeline_inv_environment:
  assumes "pipeline_inv sm meter m scripts es s" and "pipeline_environment s s'"
  shows "pipeline_inv sm meter m scripts es s'"
proof -
  have all: "list_all2 (task_inv (calm s) es) scripts (pl_tasks s)" using assms(1) by (simp add: pipeline_inv_def)
  have "list_all2 (task_inv False es) scripts (pl_tasks s)"
    by (rule list_all2_mono [OF all]) (rule task_inv_mono; simp)
  with assms(2,1) inv_frame [of s' s] show ?thesis
    by cases (auto simp: pipeline_inv_def received_inv_def)
qed

lemma pipeline_run:
  assumes "pipeline_inv sm meter m scripts es s" and "(pipeline_move meter)\<^sup>*\<^sup>* s s'"
  shows "\<exists>es'. pipeline_inv sm meter m scripts es' s'"
  using assms(2)
proof (induction rule: rtranclp_induct)
  case base
  then show ?case using assms(1) by blast
next
  case (step s1 s2)
  then show ?case using pipeline_inv_step pipeline_inv_environment by metis
qed

section \<open>Every run ends\<close>

text \<open>The steps that move an event on, end a listener or come from outside are bounded (\<open>pipeline_work\<close>);
  between two of them only port events are sent and received, of which \<open>unsent\<close> are left.\<close>

fun listener_work :: "listener_state \<Rightarrow> nat" where
  "listener_work Waiting = 1"
| "listener_work (Locking e) = 4"
| "listener_work (Processing e n) = 3"
| "listener_work (Stopped r) = 0"

definition task_work :: "discovery_task \<Rightarrow> nat" where
  "task_work t = 5 * length (pending t) + 4 * length (buffer t) + listener_work (listener t)"

definition pipeline_work :: "'m pipeline \<Rightarrow> nat" where
  "pipeline_work s = sum_list (map task_work (pl_tasks s)) + of_bool (pl_receiving s) + of_bool (pl_owned s)"

definition unsent :: "('m, port_event list) service_manager \<Rightarrow> discovery_task \<Rightarrow> nat" where
  "unsent sm t = (case listener t of Processing e n \<Rightarrow> length (port_messages sm (task_name t) e) - n | _ \<Rightarrow> 0)"

definition port_work :: "'m pipeline \<Rightarrow> nat" where
  "port_work s = length (port_queue s) + 2 * sum_list (map (unsent (pl_manager s)) (pl_tasks s))"

lemma pipeline_step_work:
  assumes "pipeline_step meter s s'"
  shows "((pipeline_work s', port_work s'), (pipeline_work s, port_work s)) \<in> less_than <*lex*> less_than"
proof -
  have less: "sum_list (map f ((pl_tasks s)[i := t'])) < sum_list (map f (pl_tasks s))"
    if "i < length (pl_tasks s)" "f t' < f (pl_tasks s ! i)" for i t' and f :: "discovery_task \<Rightarrow> nat"
    using sum_list_map_update [OF that(1), of f t'] that(2) by linarith
  from assms show ?thesis
  proof cases
    case (announce i t e n ms)
    have "sum_list (map task_work ((pl_tasks s)[i := t\<lparr>listener := Processing e (Suc n)\<rparr>])) =
        sum_list (map task_work (pl_tasks s))"
      using sum_list_map_update [OF announce(2), of task_work "t\<lparr>listener := Processing e (Suc n)\<rparr>"] announce
      by (simp add: task_work_def)
    moreover have "sum_list (map (unsent (pl_manager s)) ((pl_tasks s)[i := t\<lparr>listener := Processing e (Suc n)\<rparr>])) <
        sum_list (map (unsent (pl_manager s)) (pl_tasks s))"
      using announce by (intro less) (simp_all add: unsent_def)
    ultimately show ?thesis by (simp add: announce(1) pipeline_work_def port_work_def)
  next
    case (drain e q)
    then show ?thesis by (simp add: pipeline_work_def port_work_def)
  qed (auto simp: pipeline_work_def task_work_def intro!: less)
qed

lemma pipeline_environment_work:
  assumes "pipeline_environment s s'"
  shows "((pipeline_work s', port_work s'), (pipeline_work s, port_work s)) \<in> less_than <*lex*> less_than"
  using assms by cases (auto simp: pipeline_work_def)

lemma no_infinite_run: "\<nexists>f. \<forall>k. pipeline_move meter (f k) (f (Suc k))"
proof
  assume "\<exists>f. \<forall>k. pipeline_move meter (f k) (f (Suc k))"
  then obtain f where "\<forall>k. pipeline_move meter (f k) (f (Suc k))" by blast
  then have "\<forall>k. ((pipeline_work (f (Suc k)), port_work (f (Suc k))), (pipeline_work (f k), port_work (f k))) \<in>
      less_than <*lex*> less_than"
    using pipeline_step_work pipeline_environment_work by blast
  moreover have "wf (less_than <*lex*> less_than :: ((nat \<times> nat) \<times> nat \<times> nat) set)" by auto
  ultimately show False
    using wf_no_infinite_down_chainE [of "less_than <*lex*> less_than" "\<lambda>k. (pipeline_work (f k), port_work (f k))"] by blast
qed

lemma pipeline_comes_to_rest: "\<exists>s'. (pipeline_step meter)\<^sup>*\<^sup>* s s' \<and> (\<nexists>s''. pipeline_step meter s' s'')"
proof -
  let ?R = "inv_image (less_than <*lex*> less_than) (\<lambda>s. (pipeline_work s, port_work s))"
  have "wf ?R" by auto
  then show ?thesis
  proof (induction s rule: wf_induct_rule)
    case (less s)
    show ?case
    proof (cases "\<exists>s1. pipeline_step meter s s1")
      case True
      then obtain s1 where s1: "pipeline_step meter s s1" by blast
      then have "(s1, s) \<in> ?R" using pipeline_step_work [OF s1] by simp
      from less [OF this] s1 show ?thesis by (meson converse_rtranclp_into_rtranclp)
    qed blast
  qed
qed

lemma pipeline_step_calm: "(pipeline_step meter)\<^sup>*\<^sup>* s s' \<Longrightarrow> pl_owned s' = pl_owned s \<and> pl_receiving s' = pl_receiving s"
  by (induction rule: rtranclp_induct) (auto elim!: pipeline_step.cases)

section \<open>Nothing is left waiting\<close>

lemma pipeline_progress:
  assumes "pipeline_inv sm meter m scripts es s" and "t \<in> set (pl_tasks s)"
    and "pending t \<noteq> [] \<or> (\<forall>r. listener t \<noteq> Stopped r)"
  shows "\<exists>s'. pipeline_step meter s s'"
proof -
  obtain i where i: "i < length (pl_tasks s)" "t = pl_tasks s ! i" using assms(2) by (metis in_set_conv_nth)
  have wf: "sm_wf (pl_manager s)" using assms(1) by (simp add: pipeline_inv_def)
  have writing: "\<exists>s'. pipeline_step meter s s'"
    if j: "j < length (pl_tasks s)" and l: "listener (pl_tasks s ! j) = Processing e n" for j e n
  proof -
    obtain sm' next' where ev: "listen_event (accepting (pl_manager s) n) meter (task_name (pl_tasks s ! j)) (pl_manager s) e True =
        (sm', next')" by fastforce
    show ?thesis
      using wf ev
    proof (cases rule: listen_event_cases)
      case processed
      then show ?thesis using pipeline_step.finish [OF j refl l] ev by blast
    next
      case (panicked p)
      show ?thesis
      proof (cases "pl_receiving s")
        case False
        then show ?thesis using pipeline_step.crash [OF j refl l] ev panicked by blast
      next
        case True
        then show ?thesis
          using pipeline_step.announce [OF j refl l refl panicked(2)] pipeline_step.drain [of s]
          by (cases "port_queue s") (auto simp: PORT_NOTIFICATION_BUFFER_SIZE_def)
      qed
    qed
  qed
  show ?thesis
  proof (cases "listener t")
    case Waiting
    consider e q where "buffer t = e # q" | e q where "buffer t = []" "pending t = e # q" | "buffer t = []" "pending t = []"
      by (metis list.exhaust)
    then show ?thesis
    proof cases
      case 1
      have "\<exists>sm' r. listen_event (accepting (pl_manager s) 0) meter (task_name t) (pl_manager s) e False = (sm', Finish r)"
        by (simp add: listen_event_def)
      then show ?thesis
        using pipeline_step.receive [OF i Waiting 1] pipeline_step.leave [OF i Waiting 1] by blast
    next
      case 2
      then show ?thesis
        using pipeline_step.deliver [OF i 2(2)] Waiting by (auto simp: ENDPOINT_EVENT_BUFFER_SIZE_def)
    next
      case 3
      then show ?thesis using pipeline_step.close [OF i Waiting] by blast
    qed
  next
    case (Locking e)
    show ?thesis
    proof (cases "port_writer s")
      case None
      then show ?thesis using pipeline_step.acquire [OF i Locking] by blast
    next
      case (Some j)
      then have "j < length (pl_tasks s)" "is_processing (listener (pl_tasks s ! j))"
        using assms(1) by (auto simp: pipeline_inv_def writer_inv_def)
      then show ?thesis using writing by (cases "listener (pl_tasks s ! j)") auto
    qed
  next
    case (Processing e n)
    then show ?thesis using writing i by blast
  next
    case (Stopped r)
    then obtain e q where "pending t = e # q" using assms(3) by (cases "pending t") auto
    then show ?thesis using pipeline_step.refuse [OF i _ Stopped] by blast
  qed
qed

lemma pipeline_rest:
  assumes "pipeline_inv sm meter m scripts es s" and "\<nexists>s'. pipeline_step meter s s'"
  shows "port_queue s = []" and "t \<in> set (pl_tasks s) \<Longrightarrow> pending t = [] \<and> buffer t = [] \<and> (\<exists>r. listener t = Stopped r)"
    and "announced s = []"
proof -
  show "port_queue s = []"
    using assms pipeline_step.drain [of s] by (cases "port_queue s"; cases "pl_receiving s") (auto simp: pipeline_inv_def)
  have all: "list_all2 (task_inv (calm s) es) scripts (pl_tasks s)" using assms(1) by (simp add: pipeline_inv_def)
  have stopped: "pending t = [] \<and> (\<exists>r. listener t = Stopped r)" if "t \<in> set (pl_tasks s)" for t
    using pipeline_progress [OF assms(1) that] assms(2) by blast
  then show "pending t = [] \<and> buffer t = [] \<and> (\<exists>r. listener t = Stopped r)" if "t \<in> set (pl_tasks s)"
    using that list_all2_nthD2 [OF all] by (fastforce simp: task_inv_def in_set_conv_nth)
  have "port_writer s = None"
  proof (rule ccontr)
    assume "port_writer s \<noteq> None"
    then obtain i where "i < length (pl_tasks s)" "is_processing (listener (pl_tasks s ! i))"
      using assms(1) by (auto simp: pipeline_inv_def writer_inv_def)
    then show False using stopped [of "pl_tasks s ! i"] by auto
  qed
  then show "announced s = []" by (simp add: announced_def)
qed

lemma pipeline_rest_calm:
  assumes inv: "pipeline_inv sm meter m scripts es s" and stop: "\<nexists>s'. pipeline_step meter s s'" and calm: "calm s"
  shows "sm_inv (pl_manager s)" and "port_received s = port_history (pl_manager s)"
    and "in_sync (\<lambda>h. h) sm \<Longrightarrow> in_sync (\<lambda>h. h) (pl_manager s)"
    and "\<forall>d. d \<in> set scripts \<longrightarrow> events_of (fst d) es = snd d"
    and "directory_of (port_service_map (pl_manager s)) = dir_run es (directory_of (port_service_map sm))"
    and "d \<in> set scripts \<Longrightarrow>
      hm_get (endpoint_discovery_metrics (pl_manager s)) (fst d) = Some ((meter True ^^ length (snd d)) m)"
proof -
  note rest = pipeline_rest [OF inv stop]
  have all: "list_all2 (task_inv True es) scripts (pl_tasks s)" using inv calm by (simp add: pipeline_inv_def)
  have r: "received_inv sm meter m scripts es s" using inv calm by (simp add: pipeline_inv_def)
  then show "sm_inv (pl_manager s)" "port_received s = port_history (pl_manager s)"
    "in_sync (\<lambda>h. h) sm \<Longrightarrow> in_sync (\<lambda>h. h) (pl_manager s)"
    "directory_of (port_service_map (pl_manager s)) = dir_run es (directory_of (port_service_map sm))"
    using rest by (simp_all add: received_inv_def)
  have sent: "events_of (fst d) es = snd d" if mem: "d \<in> set scripts" for d
  proof -
    obtain j where j: "j < length scripts" "d = scripts ! j" using mem by (auto simp: in_set_conv_nth)
    then have "\<exists>r. listener (pl_tasks s ! j) = Stopped r" using rest(2) list_all2_lengthD [OF all] by simp
    then show ?thesis using list_all2_nthD [OF all j(1)] j(2) by (auto simp: task_inv_def)
  qed
  then show "\<forall>d. d \<in> set scripts \<longrightarrow> events_of (fst d) es = snd d" by blast
  show "d \<in> set scripts \<Longrightarrow>
      hm_get (endpoint_discovery_metrics (pl_manager s)) (fst d) = Some ((meter True ^^ length (snd d)) m)"
    using r sent by (auto simp: received_inv_def metrics_inv_def)
qed

section \<open>Scripts from watch streams\<close>

text \<open>The events that a discovery task sends, and those of the Kubernetes task.\<close>

definition discovery_script ::
    "(endpoint_event list, endpoint_event list \<times> 'o) endpoint_discovery \<Rightarrow> string \<times> endpoint_event list" where
  "discovery_script d = (ed_name d, fst (ed_run_with_sender d []))"

lemma kubernetes_script:
  fixes connect :: "'cfg \<Rightarrow> 'e + 'client"
  assumes "connect (ked_config ked) = Inr client"
    and "watcher client (ked_namespace ked) label_selector = map Inr evs"
    and "stream_plan [] evs = Some (known, out)"
  shows "discovery_script (kubernetes_discovery open_channel connect watcher ked) = (ked_name ked, out)"
proof -
  obtain rt where "watch_pods open_channel (runtime_new (ked_name ked) []) (map Inr evs) =
      (rt, Inl StreamClosed :: 'e run_error + unit)" "rt_sender rt = out"
    using assms(3) by (auto simp: watch_pods_closed runtime_new_def)
  then show ?thesis
    by (simp add: discovery_script_def kubernetes_discovery_def discovery_run_def assms(1,2))
qed

section \<open>Properties\<close>

text \<open>C10: Events take effect in the order in which they are sent, each once, and none is skipped. In every
  state of the system, whatever else happens in it, there is a beginning of what a task sends such that
  what the manager has of the task's endpoints, at every port, is exactly what these events make in that
  order of what it had before. As long as the task's listener runs, the remaining events are the
  one it has in hand, those in its channel and those the task has yet to send, in this order. The
  channel never holds more than its capacity.\<close>

theorem events_stay_in_order:
  assumes "sm_inv sm" and "pipeline_new m sm scripts = Inr s0"
    and "(pipeline_move meter)\<^sup>*\<^sup>* s0 s" and "i < length scripts"
  shows "task_name (pl_tasks s ! i) = fst (scripts ! i) \<and> length (buffer (pl_tasks s ! i)) \<le> 1024 \<and>
    (\<exists>taken left. snd (scripts ! i) = taken @ left \<and>
      (\<forall>port uid. endpoint_at (directory_of (port_service_map (pl_manager s))) port (endpoint_id_new (fst (scripts ! i)) uid) =
         endpoint_at (fold (dir_step (fst (scripts ! i))) taken (directory_of (port_service_map sm))) port
           (endpoint_id_new (fst (scripts ! i)) uid)) \<and>
      ((\<exists>r. listener (pl_tasks s ! i) = Stopped r) \<or>
       left = in_hand (listener (pl_tasks s ! i)) @ buffer (pl_tasks s ! i) @ pending (pl_tasks s ! i)))"
proof -
  obtain es where inv: "pipeline_inv sm meter m scripts es s"
    using pipeline_run [OF pipeline_inv_new [OF assms(1,2)] assms(3)] by blast
  let ?t = "pl_tasks s ! i" and ?taken = "events_of (fst (scripts ! i)) es"
  have t: "task_inv (calm s) es (scripts ! i) ?t"
    using inv assms(4) by (auto simp: pipeline_inv_def dest: list_all2_nthD)
  have "\<exists>left. snd (scripts ! i) = ?taken @ left \<and>
      ((\<exists>r. listener ?t = Stopped r) \<or> left = in_hand (listener ?t) @ buffer ?t @ pending ?t)"
    using t by (cases "listener ?t") (auto simp: task_inv_def elim: prefixE)
  moreover have "endpoint_at (directory_of (port_service_map (pl_manager s))) port (endpoint_id_new (fst (scripts ! i)) uid) =
      endpoint_at (fold (dir_step (fst (scripts ! i))) ?taken (directory_of (port_service_map sm))) port
        (endpoint_id_new (fst (scripts ! i)) uid)" for port uid
    using inv by (simp add: pipeline_inv_def endpoint_at_run_own)
  ultimately show ?thesis
    using t by (auto simp: task_inv_def ENDPOINT_EVENT_BUFFER_SIZE_def)
qed

text \<open>C5: The pipeline settles. Whatever the tasks send, however tasks, listeners and the matchmaker are
  scheduled, and whenever the receiver of port events or the owner of the manager goes away: no run is
  infinite, and the system comes to rest. It rests only when every listener has ended, no task waits to
  send, and every port event has been received or its receiver is gone; no listener is left waiting for
  the write lock or for room in a channel. If at rest the matchmaker still receives and the manager is still
  owned, every event of every task was processed, in the order of its task: the manager satisfies its
  invariant and represents the directory that some interleaving of the whole scripts makes, the matchmaker
  has received exactly the port events that were sent, which (if they did so at the start) leave open
  exactly the ports that the manager serves, and the metrics of every task were updated once per event.\<close>

theorem pipeline_settles:
  assumes "sm_inv sm" and "pipeline_new m sm scripts = Inr s0"
  shows "(\<nexists>f. f 0 = s0 \<and> (\<forall>k. pipeline_move meter (f k) (f (Suc k)))) \<and>
    (\<exists>s. (pipeline_step meter)\<^sup>*\<^sup>* s0 s \<and> (\<nexists>s'. pipeline_step meter s s')) \<and>
    (\<forall>s. (pipeline_move meter)\<^sup>*\<^sup>* s0 s \<and> (\<nexists>s'. pipeline_step meter s s') \<longrightarrow>
       port_queue s = [] \<and>
       (\<forall>t. t \<in> set (pl_tasks s) \<longrightarrow> pending t = [] \<and> buffer t = [] \<and> (\<exists>r. listener t = Stopped r)) \<and>
       (pl_owned s \<and> pl_receiving s \<longrightarrow>
          sm_inv (pl_manager s) \<and> port_received s = port_history (pl_manager s) \<and>
          (in_sync (\<lambda>h. h) sm \<longrightarrow> in_sync (\<lambda>h. h) (pl_manager s)) \<and>
          (\<exists>es. (\<forall>d. d \<in> set scripts \<longrightarrow> events_of (fst d) es = snd d) \<and>
             directory_of (port_service_map (pl_manager s)) = dir_run es (directory_of (port_service_map sm))) \<and>
          (\<forall>d. d \<in> set scripts \<longrightarrow>
             hm_get (endpoint_discovery_metrics (pl_manager s)) (fst d) = Some ((meter True ^^ length (snd d)) m))))"
proof (intro conjI allI impI)
  show "\<nexists>f. f 0 = s0 \<and> (\<forall>k. pipeline_move meter (f k) (f (Suc k)))" using no_infinite_run [of meter] by blast
  show "\<exists>s. (pipeline_step meter)\<^sup>*\<^sup>* s0 s \<and> (\<nexists>s'. pipeline_step meter s s')" by (rule pipeline_comes_to_rest)
  fix s
  assume run: "(pipeline_move meter)\<^sup>*\<^sup>* s0 s \<and> (\<nexists>s'. pipeline_step meter s s')"
  obtain es where inv: "pipeline_inv sm meter m scripts es s"
    using pipeline_run [OF pipeline_inv_new [OF assms]] run by blast
  note rest = pipeline_rest [OF inv, OF run [THEN conjunct2]]
  show "port_queue s = []" by (rule rest(1))
  show "pending t = []" "buffer t = []" "\<exists>r. listener t = Stopped r" if "t \<in> set (pl_tasks s)" for t
    using rest(2) that by auto
  assume calm: "calm s"
  note calm = pipeline_rest_calm [OF inv run [THEN conjunct2] calm]
  show "sm_inv (pl_manager s)" "port_received s = port_history (pl_manager s)" by (rule calm)+
  show "in_sync (\<lambda>h. h) (pl_manager s)" if "in_sync (\<lambda>h. h) sm" using calm(3) that .
  show "\<exists>es. (\<forall>d. d \<in> set scripts \<longrightarrow> events_of (fst d) es = snd d) \<and>
      directory_of (port_service_map (pl_manager s)) = dir_run es (directory_of (port_service_map sm))"
    using calm(4,5) by blast
  show "hm_get (endpoint_discovery_metrics (pl_manager s)) (fst d) = Some ((meter True ^^ length (snd d)) m)"
    if "d \<in> set scripts" for d using calm(6) that .
qed

definition example_scripts :: "(string \<times> endpoint_event list) list" where
  "example_scripts = [(''k8s'', [Add ''u'' True 8080 ''http'' (example_addr 7) ''http'', Delete ''u'']),
     (''file'', [Suspend ''1''])]"

definition example_registered :: "(nat, port_event list) service_manager" where
  "example_registered = example_manager
     \<lparr>registered_endpoint_discovery_names := [''test'', ''k8s'', ''file''],
      endpoint_discovery_metrics := [(''test'', 0), (''k8s'', 0), (''file'', 0)]\<rparr>"

definition example_start :: "nat pipeline" where
  "example_start = \<lparr>pl_manager = example_registered, pl_tasks = map discovery_task_new example_scripts,
     port_writer = None, port_queue = [], port_received = [Open 80 ''http''], pl_receiving = True, pl_owned = True\<rparr>"

lemma example_start: "pipeline_new 0 example_manager example_scripts = Inr example_start"
  by (simp add: pipeline_new_def example_scripts_def example_start_def example_registered_def sm_eval
      example_manager_def port_history_def)

text \<open>The first event of the first task, from its sending to the release of the lock.\<close>

lemma example_first_event:
  "\<exists>s. (pipeline_step meter)\<^sup>*\<^sup>* example_start s \<and>
     pl_tasks s = [\<lparr>task_name = ''k8s'', pending = [Delete ''u''], buffer = [], listener = Waiting\<rparr>,
       \<lparr>task_name = ''file'', pending = [Suspend ''1''], buffer = [], listener = Waiting\<rparr>]"
proof -
  let ?step = "pipeline_step meter" and ?add = "Add ''u'' True 8080 ''http'' (example_addr 7) ''http''"
  let ?s = "\<lambda>p b l w q. \<lparr>pl_manager = example_registered,
      pl_tasks = [\<lparr>task_name = ''k8s'', pending = p, buffer = b, listener = l\<rparr>,
        \<lparr>task_name = ''file'', pending = [Suspend ''1''], buffer = [], listener = Waiting\<rparr>],
      port_writer = w, port_queue = q, port_received = [Open 80 ''http''], pl_receiving = True, pl_owned = True\<rparr>"
  have eq: "?step s s1 \<Longrightarrow> s1 = s2 \<Longrightarrow> ?step s s2" for s s1 s2 by simp
  have ms: "port_messages example_registered ''k8s'' ?add = [Open 8080 ''http'']"
    by (simp add: port_messages_def example_registered_def example_manager_def sm_eval send_event_trace_def)
  have start: "example_start = ?s [?add, Delete ''u''] [] Waiting None []"
    by (simp add: example_start_def example_scripts_def discovery_task_new_def)
  have 1: "?step example_start (?s [Delete ''u''] [?add] Waiting None [])"
    unfolding start
    by (rule eq [OF pipeline_step.deliver [OF _ refl, where i = 0]])
       (simp_all add: ENDPOINT_EVENT_BUFFER_SIZE_def update_task_def)
  have 2: "?step (?s [Delete ''u''] [?add] Waiting None []) (?s [Delete ''u''] [] (Locking ?add) None [])"
    by (rule eq [OF pipeline_step.receive [OF _ refl, where i = 0]]) (simp_all add: update_task_def upgrade_def)
  have 3: "?step (?s [Delete ''u''] [] (Locking ?add) None []) (?s [Delete ''u''] [] (Processing ?add 0) (Some 0) [])"
    by (rule eq [OF pipeline_step.acquire [OF _ refl, where i = 0]]) (simp_all add: update_task_def)
  have 4: "?step (?s [Delete ''u''] [] (Processing ?add 0) (Some 0) [])
      (?s [Delete ''u''] [] (Processing ?add (Suc 0)) (Some 0) [Open 8080 ''http''])"
    by (rule eq [OF pipeline_step.announce [OF _ refl _ refl, where i = 0 and n = 0 and e = ?add]])
       (simp_all add: update_task_def ms PORT_NOTIFICATION_BUFFER_SIZE_def)
  obtain sm' where sm': "listen_event (accepting example_registered (Suc 0)) meter ''k8s'' example_registered ?add True = (sm', Continue)"
    by (simp add: listen_event_def accepting_def port_history_def example_registered_def example_manager_def sm_eval)
  have 5: "?step (?s [Delete ''u''] [] (Processing ?add (Suc 0)) (Some 0) [Open 8080 ''http''])
      (?s [Delete ''u''] [] Waiting None [Open 8080 ''http'']\<lparr>pl_manager := sm'\<rparr>)"
    by (rule eq [OF pipeline_step.finish [OF _ refl, where i = 0 and n = "Suc 0" and e = ?add and sm' = sm']])
       (simp_all add: update_task_def sm')
  show ?thesis
    by (rule exI, rule conjI, rule rtranclp.rtrancl_into_rtrancl, rule rtranclp.rtrancl_into_rtrancl,
        rule rtranclp.rtrancl_into_rtrancl, rule rtranclp.rtrancl_into_rtrancl, rule r_into_rtranclp, rule 1,
        rule 2, rule 3, rule 4, rule 5) simp
qed

theorem events_stay_in_order_witness:
  "\<exists>s. (pipeline_move (\<lambda>_ n. n + 1))\<^sup>*\<^sup>* example_start s \<and> pending (pl_tasks s ! 0) = [Delete ''u''] \<and>
     endpoint_at (directory_of (port_service_map (pl_manager s))) 8080 (endpoint_id_new ''k8s'' ''u'') =
       Some (endpoint_new True (example_addr 7) ''http'')"
proof -
  obtain s where run: "(pipeline_step (\<lambda>_ n. n + 1))\<^sup>*\<^sup>* example_start s"
    and tasks: "pl_tasks s = [\<lparr>task_name = ''k8s'', pending = [Delete ''u''], buffer = [], listener = Waiting\<rparr>,
       \<lparr>task_name = ''file'', pending = [Suspend ''1''], buffer = [], listener = Waiting\<rparr>]"
    using example_first_event by blast
  have move: "(pipeline_move (\<lambda>_ n. n + 1))\<^sup>*\<^sup>* example_start s"
    using run by (rule rtranclp_mono [THEN predicate2D, rotated]) blast
  have "endpoint_at (directory_of (port_service_map (pl_manager s))) 8080 (endpoint_id_new ''k8s'' ''u'') =
      endpoint_at (fold (dir_step ''k8s'') [Add ''u'' True 8080 ''http'' (example_addr 7) ''http'']
        (directory_of (port_service_map example_manager))) 8080 (endpoint_id_new ''k8s'' ''u'')"
    using events_stay_in_order [OF example_manager_inv example_start move, of 0]
    by (auto simp: tasks example_scripts_def simp del: dir_step.simps)
  then show ?thesis
    using move by (intro exI [of _ s]) (simp add: tasks endpoint_at_step del: dir_step.simps)
qed

theorem pipeline_settles_witness:
  "\<exists>s. (pipeline_step (\<lambda>_ n. n + 1))\<^sup>*\<^sup>* example_start s \<and> (\<nexists>s'. pipeline_step (\<lambda>_ n. n + 1) s s') \<and>
     port_queue s = [] \<and> sm_inv (pl_manager s) \<and> port_received s = port_history (pl_manager s) \<and>
     hm_get (endpoint_discovery_metrics (pl_manager s)) ''k8s'' = Some 2"
proof -
  note settles = pipeline_settles [OF example_manager_inv example_start, of "\<lambda>_ n. n + 1"]
  obtain s where run: "(pipeline_step (\<lambda>_ n. n + 1))\<^sup>*\<^sup>* example_start s" and stop: "\<nexists>s'. pipeline_step (\<lambda>_ n. n + 1) s s'"
    using settles [THEN conjunct2, THEN conjunct1] by blast
  have move: "(pipeline_move (\<lambda>_ n. n + 1))\<^sup>*\<^sup>* example_start s"
    using run by (rule rtranclp_mono [THEN predicate2D, rotated]) blast
  have "pl_owned s" "pl_receiving s" using pipeline_step_calm [OF run] by (simp_all add: example_start_def)
  with settles [THEN conjunct2, THEN conjunct2, rule_format, of s, OF conjI [OF move stop]] run stop
  show ?thesis by (intro exI [of _ s]) (simp add: example_scripts_def numeral_2_eq_2)
qed

end
