(* ===== verification/Benchmarks.thy ===== *)
theory Benchmarks
  imports Proxy_Pipeline
begin

text \<open>
  The wrappers that the benchmarks use (\<^verbatim>\<open>src/src/backend/benchmark.rs\<close> and
  \<^verbatim>\<open>src/src/kubernetes/benchmark.rs\<close>): a service manager whose port events are received and thrown
  away, and a discovery runtime with a channel of its own. The benchmarks measure the methods they
  wrap only if the wrappers do not get in the way, which is what the lemmas state.
\<close>

section \<open>The service manager\<close>

record ('m, 'c) bench_service_manager =
  bench_manager :: "('m, 'c) service_manager"

text \<open>\<open>channel\<close> is \<^verbatim>\<open>mpsc::channel\<close>, the two ends of a new channel of the given capacity. The task that
  registers the sender and then takes everything from the receiver runs at some time; here it has
  registered the sender.\<close>

definition bench_service_manager_new ::
    "(nat \<Rightarrow> 'c \<times> 'rx) \<Rightarrow> ('c \<Rightarrow> port_event \<Rightarrow> 'c option) \<Rightarrow> ('m, 'c) bench_service_manager" where
  "bench_service_manager_new channel send =
     (let (sender, receiver) = channel 1000000
      in \<lparr>bench_manager = send_port_events_to send service_manager_new sender\<rparr>)"

definition bench_process_event ::
    "('c \<Rightarrow> port_event \<Rightarrow> 'c option) \<Rightarrow> ('m, 'c) bench_service_manager \<Rightarrow> string \<Rightarrow> endpoint_event \<Rightarrow>
     ('m, 'c) bench_service_manager \<times> unit outcome" where
  "bench_process_event send b from event =
     (case process_event send (bench_manager b) from event of
        (sm', Panic p) \<Rightarrow> (b\<lparr>bench_manager := sm'\<rparr>, Panic p)
      | (sm', Done _) \<Rightarrow> (b\<lparr>bench_manager := sm'\<rparr>, Done ()))"

section \<open>The Kubernetes runtime\<close>

record 'c bench_runtime =
  kubernetes_runtime :: "'c k8s_runtime"

definition bench_runtime_new ::
    "(nat \<Rightarrow> 'c \<times> 'rx) \<Rightarrow> string \<Rightarrow> nat \<Rightarrow> 'c bench_runtime \<times> 'rx" where
  "bench_runtime_new channel name channel_capacity =
     (let (sender, receiver) = channel channel_capacity
      in (\<lparr>kubernetes_runtime = runtime_new name sender\<rparr>, receiver))"

definition bench_handle_pod_event ::
    "('c \<Rightarrow> endpoint_event \<Rightarrow> 'c option) \<Rightarrow> 'c bench_runtime \<Rightarrow> pod_event \<Rightarrow> 'c bench_runtime \<times> (k8s_error + unit)" where
  "bench_handle_pod_event send b event =
     (case handle_pod_event send (kubernetes_runtime b) event of
        (rt, r) \<Rightarrow> (b\<lparr>kubernetes_runtime := rt\<rparr>, r))"

section \<open>What the wrappers keep\<close>

lemma bench_new:
  "sm_inv (bench_manager (bench_service_manager_new channel send))"
  "directory_of (port_service_map (bench_manager (bench_service_manager_new channel send))) = Map.empty"
  by (simp_all add: bench_service_manager_new_def split_beta send_port_events_to_frame sm_inv_new)
     (simp add: service_manager_new_def directory_of_def [abs_def] rust_simps)

lemma bench_event_processed:
  assumes "\<forall>c e. send c e \<noteq> None" and "sm_inv (bench_manager b)"
  shows "\<exists>b'. bench_process_event send b name ev = (b', Done ()) \<and> sm_inv (bench_manager b') \<and>
    directory_of (port_service_map (bench_manager b')) =
      dir_step name ev (directory_of (port_service_map (bench_manager b)))"
proof -
  note wf = sm_inv_wf [OF assms(2)]
  obtain sm' w where e: "process_event send (bench_manager b) name ev = (sm', Done w)"
    using process_event_not_refused [OF sm_wf_hm_wf [OF wf]] assms(1) by blast
  then show ?thesis
    using process_event_inv [OF assms(2) e] process_event_directory [OF wf e]
    by (simp add: bench_process_event_def)
qed

lemma bench_pod_event_planned:
  assumes "channel_contract send delivered" and "bench_handle_pod_event send b ev = (b', Inr ())"
  shows "\<exists>known out. plan (known_pod_uids (kubernetes_runtime b)) ev = Some (known, out) \<and>
    known_pod_uids (kubernetes_runtime b') = known \<and>
    delivered (rt_sender (kubernetes_runtime b')) = delivered (rt_sender (kubernetes_runtime b)) @ out"
proof -
  have h: "handle_pod_event send (kubernetes_runtime b) ev = (kubernetes_runtime b', Inr ())"
    using assms(2) by (auto simp: bench_handle_pod_event_def split: prod.splits)
  then show ?thesis
    using channel_run_all [OF assms(1)]
    by (fastforce simp: handle_pod_event_ok simp del: handle_pod_event.simps plan.simps split: option.splits)
qed

end
