(* ===== verification/Channel_Messages.thy ===== *)
theory Channel_Messages
  imports Protocol
begin

text \<open>
  The messages of \<^verbatim>\<open>src/src/protocol/proxy/endpoint.rs\<close>: what an endpoint may send
  (\<open>server_message\<close>) and what the proxy may send (\<open>client_message\<close>), one constructor per variant
  of the source with its fields in order, and the state of a channel.

  A message of either kind other than \<^verbatim>\<open>Hello\<close> may carry the id of its channel.
  \<^verbatim>\<open>take_channel_id\<close> moves the id out of the message and \<^verbatim>\<open>set_channel_id\<close> writes one. What both
  kinds promise is the locale \<open>channel_tagged\<close>; its consequences are proved once and
  interpreted for both.
\<close>

section \<open>Channel states\<close>

datatype channel_server_state =
    ServerIdle
  | ServerStartReceivingData "u64 option"
  | ServerReceivingChunk "u64 option" "u64 option" u64
  | ServerStartReceivingSocketData u32 "u64 option"
  | ServerReceivingSocketChunk u32 "u64 option" "u64 option" u64

datatype channel_client_state =
    WaitingForAcceptance
  | ClientIdle
  | ClientStartReceivingData "u64 option"
  | ClientReceivingChunk "u64 option" "u64 option" u64
  | ClientStartReceivingSocketData u32 "u64 option"
  | ClientReceivingSocketChunk u32 "u64 option" "u64 option" u64

record channel_state =
  chan_client :: channel_client_state
  chan_server :: channel_server_state

definition channel_state_new :: channel_state where
  "channel_state_new = \<lparr>chan_client = WaitingForAcceptance, chan_server = ServerIdle\<rparr>"

section \<open>Messages\<close>

datatype server_message =
    SHello u32 string
  | SAccept "u32 option"
  | SDeny "u32 option" string
  | SDataStart "u32 option" "u64 option" "u8 list option"
  | SDataChunk "u32 option" u64 "u8 list option"
  | SDataEnd "u32 option" "u8 list option"
  | SSetState "u32 option" "u8 list option"
  | SOpenSocket "u32 option" u32 string string
  | SSocketDataStart "u32 option" u32 "u64 option"
  | SCloseSocket "u32 option" u32

datatype client_message =
    CHello u32 "string list"
  | CNewChannel "u32 option" socket_addr
  | CRecoverChannel "u32 option" socket_addr "u8 list"
  | CCloseChannel "u32 option" "string option"
  | CDataStart "u32 option" "u64 option"
  | CDataChunk "u32 option" "u64 option"
  | CDataEnd "u32 option"
  | CSocketOpened "u32 option" u32
  | CSocketNotOpened "u32 option" u32 string
  | CSocketError "u32 option" u32 string
  | CSocketDataStart "u32 option" u32 "u64 option"
  | CSocketClosed "u32 option" u32

datatype take_channel_id_result = Id u32 | Uneeded | Missing

text \<open>The derived \<^verbatim>\<open>IntoStaticStr\<close>: the name of the variant.\<close>

fun server_message_name :: "server_message \<Rightarrow> string" where
  "server_message_name (SHello _ _) = ''Hello''"
| "server_message_name (SAccept _) = ''Accept''"
| "server_message_name (SDeny _ _) = ''Deny''"
| "server_message_name (SDataStart _ _ _) = ''DataStart''"
| "server_message_name (SDataChunk _ _ _) = ''DataChunk''"
| "server_message_name (SDataEnd _ _) = ''DataEnd''"
| "server_message_name (SSetState _ _) = ''SetState''"
| "server_message_name (SOpenSocket _ _ _ _) = ''OpenSocket''"
| "server_message_name (SSocketDataStart _ _ _) = ''SocketDataStart''"
| "server_message_name (SCloseSocket _ _) = ''CloseSocket''"

fun client_message_name :: "client_message \<Rightarrow> string" where
  "client_message_name (CHello _ _) = ''Hello''"
| "client_message_name (CNewChannel _ _) = ''NewChannel''"
| "client_message_name (CRecoverChannel _ _ _) = ''RecoverChannel''"
| "client_message_name (CCloseChannel _ _) = ''CloseChannel''"
| "client_message_name (CDataStart _ _) = ''DataStart''"
| "client_message_name (CDataChunk _ _) = ''DataChunk''"
| "client_message_name (CDataEnd _) = ''DataEnd''"
| "client_message_name (CSocketOpened _ _) = ''SocketOpened''"
| "client_message_name (CSocketNotOpened _ _ _) = ''SocketNotOpened''"
| "client_message_name (CSocketError _ _ _) = ''SocketError''"
| "client_message_name (CSocketDataStart _ _ _) = ''SocketDataStart''"
| "client_message_name (CSocketClosed _ _) = ''SocketClosed''"

text \<open>\<^verbatim>\<open>Option::take\<close> of the channel id, as the result of \<^verbatim>\<open>take_channel_id\<close>.\<close>

definition taken_id :: "u32 option \<Rightarrow> take_channel_id_result" where
  "taken_id channel_id = (case channel_id of Some c \<Rightarrow> Id c | None \<Rightarrow> Missing)"

fun server_take_channel_id :: "server_message \<Rightarrow> server_message \<times> take_channel_id_result" where
  "server_take_channel_id (SHello v f) = (SHello v f, Uneeded)"
| "server_take_channel_id (SAccept c) = (SAccept None, taken_id c)"
| "server_take_channel_id (SDeny c e) = (SDeny None e, taken_id c)"
| "server_take_channel_id (SDataStart c z s) = (SDataStart None z s, taken_id c)"
| "server_take_channel_id (SDataChunk c z s) = (SDataChunk None z s, taken_id c)"
| "server_take_channel_id (SDataEnd c s) = (SDataEnd None s, taken_id c)"
| "server_take_channel_id (SSetState c s) = (SSetState None s, taken_id c)"
| "server_take_channel_id (SOpenSocket c k p a) = (SOpenSocket None k p a, taken_id c)"
| "server_take_channel_id (SSocketDataStart c k z) = (SSocketDataStart None k z, taken_id c)"
| "server_take_channel_id (SCloseSocket c k) = (SCloseSocket None k, taken_id c)"

fun server_set_channel_id :: "u32 \<Rightarrow> server_message \<Rightarrow> server_message" where
  "server_set_channel_id n (SHello v f) = SHello v f"
| "server_set_channel_id n (SAccept c) = SAccept (Some n)"
| "server_set_channel_id n (SDeny c e) = SDeny (Some n) e"
| "server_set_channel_id n (SDataStart c z s) = SDataStart (Some n) z s"
| "server_set_channel_id n (SDataChunk c z s) = SDataChunk (Some n) z s"
| "server_set_channel_id n (SDataEnd c s) = SDataEnd (Some n) s"
| "server_set_channel_id n (SSetState c s) = SSetState (Some n) s"
| "server_set_channel_id n (SOpenSocket c k p a) = SOpenSocket (Some n) k p a"
| "server_set_channel_id n (SSocketDataStart c k z) = SSocketDataStart (Some n) k z"
| "server_set_channel_id n (SCloseSocket c k) = SCloseSocket (Some n) k"

fun client_take_channel_id :: "client_message \<Rightarrow> client_message \<times> take_channel_id_result" where
  "client_take_channel_id (CHello v f) = (CHello v f, Uneeded)"
| "client_take_channel_id (CNewChannel c a) = (CNewChannel None a, taken_id c)"
| "client_take_channel_id (CRecoverChannel c a s) = (CRecoverChannel None a s, taken_id c)"
| "client_take_channel_id (CCloseChannel c e) = (CCloseChannel None e, taken_id c)"
| "client_take_channel_id (CDataStart c z) = (CDataStart None z, taken_id c)"
| "client_take_channel_id (CDataChunk c z) = (CDataChunk None z, taken_id c)"
| "client_take_channel_id (CDataEnd c) = (CDataEnd None, taken_id c)"
| "client_take_channel_id (CSocketOpened c k) = (CSocketOpened None k, taken_id c)"
| "client_take_channel_id (CSocketNotOpened c k e) = (CSocketNotOpened None k e, taken_id c)"
| "client_take_channel_id (CSocketError c k e) = (CSocketError None k e, taken_id c)"
| "client_take_channel_id (CSocketDataStart c k z) = (CSocketDataStart None k z, taken_id c)"
| "client_take_channel_id (CSocketClosed c k) = (CSocketClosed None k, taken_id c)"

fun client_set_channel_id :: "u32 \<Rightarrow> client_message \<Rightarrow> client_message" where
  "client_set_channel_id n (CHello v f) = CHello v f"
| "client_set_channel_id n (CNewChannel c a) = CNewChannel (Some n) a"
| "client_set_channel_id n (CRecoverChannel c a s) = CRecoverChannel (Some n) a s"
| "client_set_channel_id n (CCloseChannel c e) = CCloseChannel (Some n) e"
| "client_set_channel_id n (CDataStart c z) = CDataStart (Some n) z"
| "client_set_channel_id n (CDataChunk c z) = CDataChunk (Some n) z"
| "client_set_channel_id n (CDataEnd c) = CDataEnd (Some n)"
| "client_set_channel_id n (CSocketOpened c k) = CSocketOpened (Some n) k"
| "client_set_channel_id n (CSocketNotOpened c k e) = CSocketNotOpened (Some n) k e"
| "client_set_channel_id n (CSocketError c k e) = CSocketError (Some n) k e"
| "client_set_channel_id n (CSocketDataStart c k z) = CSocketDataStart (Some n) k z"
| "client_set_channel_id n (CSocketClosed c k) = CSocketClosed (Some n) k"

section \<open>The contract of tagged messages\<close>

lemma taken_id_simps [simp]:
  "taken_id (Some c) = Id c" "taken_id None = Missing"
  "taken_id x = Id c \<longleftrightarrow> x = Some c" "taken_id x = Missing \<longleftrightarrow> x = None" "taken_id x \<noteq> Uneeded"
  by (auto simp: taken_id_def split: option.split)

locale channel_tagged =
  fixes take_id :: "'m \<Rightarrow> 'm \<times> take_channel_id_result"
    and set_id :: "u32 \<Rightarrow> 'm \<Rightarrow> 'm"
    and name :: "'m \<Rightarrow> string"
    and tagged :: "'m \<Rightarrow> bool"
  assumes untagged: "\<not> tagged m \<Longrightarrow> take_id m = (m, Uneeded) \<and> set_id c m = m"
    and take_tagged: "tagged m \<Longrightarrow> snd (take_id m) \<noteq> Uneeded"
    and take_set: "tagged m \<Longrightarrow> take_id (set_id c m) = (fst (take_id m), Id c)"
    and take_take: "tagged m \<Longrightarrow> take_id (fst (take_id m)) = (fst (take_id m), Missing)"
    and set_take: "take_id m = (m', Id c) \<Longrightarrow> set_id c m' = m"
    and set_set: "set_id c (set_id b m) = set_id c m"
    and name_kept: "name (set_id c m) = name m" "name (fst (take_id m)) = name m"
begin

lemma restored: "take_id m = (m', Id c) \<Longrightarrow> tagged m \<and> set_id c m' = m \<and> take_id m' = (m', Missing)"
  using untagged take_take set_take by (metis fst_conv prod.inject take_channel_id_result.distinct(1))

lemma retagged: "take_id m = (m', Id b) \<Longrightarrow> set_id c m' = set_id c m"
  using set_take set_set by metis

lemma set_then_take: "snd (take_id (set_id c m)) = (if tagged m then Id c else Uneeded)"
  using untagged take_set by (cases "tagged m") auto

end

fun server_tagged :: "server_message \<Rightarrow> bool" where
  "server_tagged (SHello _ _) = False"
| "server_tagged _ = True"

fun client_tagged :: "client_message \<Rightarrow> bool" where
  "client_tagged (CHello _ _) = False"
| "client_tagged _ = True"

lemma server_set_take: "server_take_channel_id m = (m', Id c) \<Longrightarrow> server_set_channel_id c m' = m"
  by (cases m) auto

lemma client_set_take: "client_take_channel_id m = (m', Id c) \<Longrightarrow> client_set_channel_id c m' = m"
  by (cases m) auto

interpretation srv: channel_tagged
  server_take_channel_id server_set_channel_id server_message_name server_tagged
proof
  fix m :: server_message and c b :: u32
  show "\<not> server_tagged m \<Longrightarrow> server_take_channel_id m = (m, Uneeded) \<and> server_set_channel_id c m = m"
    "server_tagged m \<Longrightarrow> snd (server_take_channel_id m) \<noteq> Uneeded"
    "server_tagged m \<Longrightarrow> server_take_channel_id (server_set_channel_id c m) =
       (fst (server_take_channel_id m), Id c)"
    "server_tagged m \<Longrightarrow> server_take_channel_id (fst (server_take_channel_id m)) =
       (fst (server_take_channel_id m), Missing)"
    "server_set_channel_id c (server_set_channel_id b m) = server_set_channel_id c m"
    "server_message_name (server_set_channel_id c m) = server_message_name m"
    "server_message_name (fst (server_take_channel_id m)) = server_message_name m"
    by (cases m; simp)+
qed (rule server_set_take)

interpretation cli: channel_tagged
  client_take_channel_id client_set_channel_id client_message_name client_tagged
proof
  fix m :: client_message and c b :: u32
  show "\<not> client_tagged m \<Longrightarrow> client_take_channel_id m = (m, Uneeded) \<and> client_set_channel_id c m = m"
    "client_tagged m \<Longrightarrow> snd (client_take_channel_id m) \<noteq> Uneeded"
    "client_tagged m \<Longrightarrow> client_take_channel_id (client_set_channel_id c m) =
       (fst (client_take_channel_id m), Id c)"
    "client_tagged m \<Longrightarrow> client_take_channel_id (fst (client_take_channel_id m)) =
       (fst (client_take_channel_id m), Missing)"
    "client_set_channel_id c (client_set_channel_id b m) = client_set_channel_id c m"
    "client_message_name (client_set_channel_id c m) = client_message_name m"
    "client_message_name (fst (client_take_channel_id m)) = client_message_name m"
    by (cases m; simp)+
qed (rule client_set_take)

text \<open>C24: Channel ids of messages. For both kinds of messages: taking the id out of a message and
  setting it again restores the message, a message whose id was taken has none left, and after
  setting an id the same id is taken out again; only \<^verbatim>\<open>Hello\<close> never carries one.\<close>

theorem channel_id_round_trip:
  "(server_take_channel_id m = (m', Id c) \<longrightarrow>
      server_set_channel_id c m' = m \<and> server_take_channel_id m' = (m', Missing)) \<and>
   snd (server_take_channel_id (server_set_channel_id c m)) =
      (if server_message_name m = ''Hello'' then Uneeded else Id c) \<and>
   (client_take_channel_id n = (n', Id c) \<longrightarrow>
      client_set_channel_id c n' = n \<and> client_take_channel_id n' = (n', Missing)) \<and>
   snd (client_take_channel_id (client_set_channel_id c n)) =
      (if client_message_name n = ''Hello'' then Uneeded else Id c)"
proof -
  have "server_tagged m \<longleftrightarrow> server_message_name m \<noteq> ''Hello''" by (cases m) simp_all
  moreover have "client_tagged n \<longleftrightarrow> client_message_name n \<noteq> ''Hello''" by (cases n) simp_all
  ultimately show ?thesis
    using srv.restored cli.restored srv.set_then_take cli.set_then_take by auto
qed

theorem channel_id_round_trip_witness:
  "server_set_channel_id 7 (SDeny None ''full'') = SDeny (Some 7) ''full'' \<and>
   client_set_channel_id 7 (CDataEnd None) = CDataEnd (Some 7)"
  using channel_id_round_trip [of "SDeny (Some 7) ''full''" "SDeny None ''full''" 7
      "CDataEnd (Some 7)" "CDataEnd None"]
  by simp

end
