(* ===== verification/Fill_Buffer.thy ===== *)
theory Fill_Buffer
  imports Rust_Std
begin

text \<open>
  \<^verbatim>\<open>fill_buffer_from\<close> of \<^verbatim>\<open>src/src/protocol/proxy/endpoint.rs\<close>: read from a stream into the
  read buffer of a channel until the stream is exhausted or the buffer is full.

  The stream is any \<^verbatim>\<open>AsyncRead\<close>: its state is \<open>'d\<close> and \<^verbatim>\<open>AsyncReadExt::read\<close> into a slice of
  \<open>n\<close> bytes is the argument \<open>read :: 'd \<Rightarrow> nat \<Rightarrow> 'd \<times> ('e + u8 list)\<close>, the bytes it wrote or an
  I/O error. What is documented of it is \<open>read_contract\<close>: it writes at most as many bytes
  as the slice has. The slice \<^verbatim>\<open>read_buffer_slice\<close> always reaches to the end of the buffer, so it is
  its offset \<open>off\<close>. Buffer sizes stay below 2051, so the \<^verbatim>\<open>usize\<close> arithmetic cannot overflow and
  is done on \<open>nat\<close>. The buffer is part of the result, because it keeps what was done to it when the
  function returns early with an error or panics.
\<close>

definition MAX_MESSAGE_BINARY_SIZE :: nat where
  "MAX_MESSAGE_BINARY_SIZE = 1024"

definition MESSAGE_BUFFER_SIZE :: nat where
  "MESSAGE_BUFFER_SIZE = MAX_MESSAGE_BINARY_SIZE + 1"

lemmas buffer_sizes = MESSAGE_BUFFER_SIZE_def MAX_MESSAGE_BINARY_SIZE_def

text \<open>\<^verbatim>\<open>BytesMut::resize\<close> with zeros, and writing into the buffer through the slice.\<close>

definition resize :: "nat \<Rightarrow> u8 list \<Rightarrow> u8 list" where
  "resize n buf = take n buf @ replicate (n - length buf) 0"

definition write_at :: "nat \<Rightarrow> u8 list \<Rightarrow> u8 list \<Rightarrow> u8 list" where
  "write_at off bs buf = take off buf @ bs @ drop (off + length bs) buf"

function fill_loop ::
    "('d \<Rightarrow> nat \<Rightarrow> 'd \<times> ('e + u8 list)) \<Rightarrow> u8 list \<Rightarrow> nat \<Rightarrow> nat \<Rightarrow> 'd \<Rightarrow>
     u8 list \<times> 'd \<times> ('e + nat) outcome" where
  "fill_loop read buf off in_buffer data =
     (case read data (length buf - off) of
        (data', Inl e) \<Rightarrow> (buf, data', Done (Inl e))
      | (data', Inr bs) \<Rightarrow>
          let buf' = write_at off bs buf;
              in_buffer' = in_buffer + length bs
          in if bs = [] \<or> in_buffer' > MAX_MESSAGE_BINARY_SIZE then (buf', data', Done (Inr in_buffer'))
             else if in_buffer' > length buf - off
             then (buf', data', Panic ''range start index out of range for slice'')
             else fill_loop read buf' (off + in_buffer') in_buffer' data')"
  by pat_completeness auto

text \<open>Every round that goes on has read at least one byte, and the loop stops above the maximum.\<close>

termination
  by (relation "measure (\<lambda>(read, buf, off, in_buffer, data). MESSAGE_BUFFER_SIZE - in_buffer)")
     (auto simp: buffer_sizes length_greater_0_conv [symmetric] simp del: length_greater_0_conv)

declare fill_loop.simps [simp del]

definition fill_buffer_from ::
    "('d \<Rightarrow> nat \<Rightarrow> 'd \<times> ('e + u8 list)) \<Rightarrow> u8 list \<Rightarrow> 'd \<Rightarrow>
     u8 list \<times> 'd \<times> ('e + bool) outcome" where
  "fill_buffer_from read read_buffer data =
     (let in_buffer = length read_buffer
      in if \<not> in_buffer \<le> MESSAGE_BUFFER_SIZE
         then (read_buffer, data, Panic ''assertion failed: in_buffer <= MESSAGE_BUFFER_SIZE'')
         else
           (case fill_loop read (resize MESSAGE_BUFFER_SIZE read_buffer) in_buffer in_buffer data of
              (buf, data', Panic p) \<Rightarrow> (buf, data', Panic p)
            | (buf, data', Done (Inl e)) \<Rightarrow> (buf, data', Done (Inl e))
            | (buf, data', Done (Inr n)) \<Rightarrow>
                (take n buf, data', Done (Inr (n < MESSAGE_BUFFER_SIZE)))))"

definition read_contract :: "('d \<Rightarrow> nat \<Rightarrow> 'd \<times> ('e + u8 list)) \<Rightarrow> bool" where
  "read_contract read \<longleftrightarrow> (\<forall>d n d' bs. read d n = (d', Inr bs) \<longrightarrow> length bs \<le> n)"

text \<open>A stream given by the pieces in which it arrives; a piece that does not fit the slice is
  handed out in parts.\<close>

fun read_pieces :: "u8 list list \<Rightarrow> nat \<Rightarrow> u8 list list \<times> ('e + u8 list)" where
  "read_pieces [] n = ([], Inr [])"
| "read_pieces (p # ps) n =
     (if length p \<le> n then (ps, Inr p) else (drop n p # ps, Inr (take n p)))"

lemma read_pieces_contract: "read_contract read_pieces"
  unfolding read_contract_def
proof (intro allI impI)
  fix d n d' bs
  assume "read_pieces d n = (d', Inr bs :: 'e + u8 list)"
  then show "length bs \<le> n"
    by (cases d) (auto split: if_splits)
qed

section \<open>What holds of every stream\<close>

lemma length_write_at: "off + length bs \<le> length buf \<Longrightarrow> length (write_at off bs buf) = length buf"
  by (simp add: write_at_def)

lemma take_write_at: "k \<le> off \<Longrightarrow> off \<le> length buf \<Longrightarrow> take k (write_at off bs buf) = take k buf"
  by (simp add: write_at_def min_def)

text \<open>The four ways a round can end.\<close>

lemma fill_loop_cases:
  assumes "fill_loop read buf off in_buffer data = (buf', data', r)"
  obtains (failed) e where "read data (length buf - off) = (data', Inl e)" "buf' = buf" "r = Done (Inl e)"
  | (stop) bs where "read data (length buf - off) = (data', Inr bs)" "buf' = write_at off bs buf"
      "bs = [] \<or> in_buffer + length bs > MAX_MESSAGE_BINARY_SIZE"
      "r = Done (Inr (in_buffer + length bs))"
  | (panic) bs where "read data (length buf - off) = (data', Inr bs)" "buf' = write_at off bs buf"
      "r = Panic ''range start index out of range for slice''"
  | (again) bs data1 where "read data (length buf - off) = (data1, Inr bs)" "bs \<noteq> []"
      "in_buffer + length bs \<le> MAX_MESSAGE_BINARY_SIZE" "in_buffer + length bs \<le> length buf - off"
      "fill_loop read (write_at off bs buf) (off + (in_buffer + length bs)) (in_buffer + length bs) data1
         = (buf', data', r)"
proof (cases "read data (length buf - off)")
  case (Pair data1 res)
  show thesis
  proof (cases res)
    case (Inl e)
    with Pair assms show thesis
      by (intro failed [of e]) (auto simp: fill_loop.simps)
  next
    case (Inr bs)
    note eq = assms [unfolded fill_loop.simps [of read buf off in_buffer data] Pair Inr Let_def prod.case sum.case]
    consider "bs = [] \<or> in_buffer + length bs > MAX_MESSAGE_BINARY_SIZE"
      | "bs \<noteq> []" "in_buffer + length bs \<le> MAX_MESSAGE_BINARY_SIZE" "in_buffer + length bs > length buf - off"
      | "bs \<noteq> []" "in_buffer + length bs \<le> MAX_MESSAGE_BINARY_SIZE" "in_buffer + length bs \<le> length buf - off"
      by linarith
    then show thesis
    proof cases
      case 1
      with eq Pair Inr show thesis by (intro stop [of bs]) (auto split: if_splits)
    next
      case 2
      with eq Pair Inr show thesis by (intro panic [of bs]) (auto split: if_splits)
    next
      case 3
      with eq Pair Inr show thesis by (intro again [of data1 bs]) (auto split: if_splits)
    qed
  qed
qed

lemma fill_loop_bounds:
  assumes contract: "read_contract read"
  shows "fill_loop read buf off in_buffer data = (buf', data', r) \<Longrightarrow>
    length buf = MESSAGE_BUFFER_SIZE \<Longrightarrow> in_buffer \<le> off \<Longrightarrow> off \<le> MESSAGE_BUFFER_SIZE \<Longrightarrow>
    length buf' = MESSAGE_BUFFER_SIZE \<and> take in_buffer buf' = take in_buffer buf \<and>
    (\<forall>n. r = Done (Inr n) \<longrightarrow> in_buffer \<le> n \<and> n \<le> MESSAGE_BUFFER_SIZE)"
proof (induction "MESSAGE_BUFFER_SIZE - in_buffer" arbitrary: buf off in_buffer data rule: less_induct)
  case less
  have fits: "off + length bs \<le> length buf" if "read data (length buf - off) = (d, Inr bs)" for d bs
    using that contract less.prems(2,4) by (fastforce simp: read_contract_def)
  have kept: "length (write_at off bs buf) = MESSAGE_BUFFER_SIZE"
      "take in_buffer (write_at off bs buf) = take in_buffer buf"
    if "read data (length buf - off) = (d, Inr bs)" for d bs
    using fits [OF that] less.prems by (simp_all add: length_write_at take_write_at)
  from less.prems(1) show ?case
  proof (cases rule: fill_loop_cases)
    case (failed e)
    then show ?thesis using less.prems by simp
  next
    case (stop bs)
    then show ?thesis using kept [OF stop(1)] fits [OF stop(1)] less.prems by auto
  next
    case (panic bs)
    then show ?thesis using kept [OF panic(1)] by simp
  next
    case (again bs data1)
    have "MESSAGE_BUFFER_SIZE - (in_buffer + length bs) < MESSAGE_BUFFER_SIZE - in_buffer"
      using again(2,3) by (cases bs) (auto simp: buffer_sizes)
    from less.hyps [OF this again(5) kept(1) [OF again(1)]] again(4) less.prems
    have IH: "length buf' = MESSAGE_BUFFER_SIZE"
      "take (in_buffer + length bs) buf' = take (in_buffer + length bs) (write_at off bs buf)"
      "\<forall>n. r = Done (Inr n) \<longrightarrow> in_buffer + length bs \<le> n \<and> n \<le> MESSAGE_BUFFER_SIZE"
      by auto
    from arg_cong [OF IH(2), of "take in_buffer"] kept(2) [OF again(1)]
    have "take in_buffer buf' = take in_buffer buf" by (simp add: take_take min_def)
    with IH show ?thesis by auto
  qed
qed

section \<open>Properties\<close>

text \<open>C17: Bounds of the read buffer. For every stream that writes no more than it may, and whatever
  happens (success, an I/O error or a panic), a buffer within its maximal size stays within it
  and keeps the bytes it already had; on success the result tells whether there is still room.
  The function always ends.\<close>

theorem fill_buffer_bounds:
  assumes "read_contract read" and "length buf \<le> MESSAGE_BUFFER_SIZE"
    and "fill_buffer_from read buf data = (buf', data', r)"
  shows "length buf' \<le> MESSAGE_BUFFER_SIZE \<and> take (length buf) buf' = buf \<and>
    (\<forall>b. r = Done (Inr b) \<longrightarrow> b = (length buf' < MESSAGE_BUFFER_SIZE))"
proof -
  let ?buf = "resize MESSAGE_BUFFER_SIZE buf"
  obtain buf1 data1 r1 where loop:
    "fill_loop read ?buf (length buf) (length buf) data = (buf1, data1, r1)"
    by (cases "fill_loop read ?buf (length buf) (length buf) data") auto
  have "length ?buf = MESSAGE_BUFFER_SIZE" "take (length buf) ?buf = buf"
    using assms(2) by (simp_all add: resize_def)
  then have b: "length buf1 = MESSAGE_BUFFER_SIZE" "take (length buf) buf1 = buf"
      "\<forall>n. r1 = Done (Inr n) \<longrightarrow> length buf \<le> n \<and> n \<le> MESSAGE_BUFFER_SIZE"
    using fill_loop_bounds [OF assms(1) loop] assms(2) by simp_all
  then show ?thesis
    using assms(2,3) loop
    by (auto simp: fill_buffer_from_def min_def split: outcome.splits sum.splits if_splits)
qed

theorem fill_buffer_bounds_witness:
  "\<exists>buf' r. fill_buffer_from read_pieces [9] [[1, 2]] = (buf', [], r :: (unit + bool) outcome) \<and>
     length buf' \<le> MESSAGE_BUFFER_SIZE \<and> take 1 buf' = [9]"
proof -
  obtain buf' r where f: "fill_buffer_from read_pieces [9] [[1, 2]] = (buf', [], r :: (unit + bool) outcome)"
    by (simp add: fill_buffer_from_def fill_loop.simps buffer_sizes resize_def write_at_def)
  have "length [9 :: u8] \<le> MESSAGE_BUFFER_SIZE" by (simp add: buffer_sizes)
  from fill_buffer_bounds [OF read_pieces_contract this f] f show ?thesis by auto
qed

lemma write_resized:
  "length buf + length bs \<le> n \<Longrightarrow>
     write_at (length buf) bs (resize n buf) = buf @ bs @ replicate (n - length buf - length bs) 0"
  by (simp add: write_at_def resize_def)

lemma write_nothing [simp]: "write_at off [] buf = buf"
  by (simp add: write_at_def)

text \<open>The rounds of the loop as equations.\<close>

lemma fill_loop_go:
  assumes "read data (length buf - off) = (data1, Inr bs)" and "bs \<noteq> []"
    and "n + length bs \<le> MAX_MESSAGE_BINARY_SIZE" and "n + length bs \<le> length buf - off"
  shows "fill_loop read buf off n data =
     fill_loop read (write_at off bs buf) (off + (n + length bs)) (n + length bs) data1"
  using assms by (subst fill_loop.simps) (simp add: Let_def)

lemma fill_loop_panics:
  assumes "read data (length buf - off) = (data1, Inr bs)" and "bs \<noteq> []"
    and "n + length bs \<le> MAX_MESSAGE_BINARY_SIZE" and "n + length bs > length buf - off"
  shows "fill_loop read buf off n data =
     (write_at off bs buf, data1, Panic ''range start index out of range for slice'')"
  using assms by (subst fill_loop.simps) (simp add: Let_def)

lemma fill_loop_stop:
  assumes "read data (length buf - off) = (data1, Inr bs)" and "bs = [] \<or> n + length bs > MAX_MESSAGE_BINARY_SIZE"
  shows "fill_loop read buf off n data = (write_at off bs buf, data1, Done (Inr (n + length bs)))"
  using assms by (subst fill_loop.simps) (simp add: Let_def)

text \<open>C18: One read, exactly. Let the stream deliver its data in one piece. If the piece fills the buffer, or if
  twice the bytes already there and the piece fit the buffer together, then the buffer afterwards is the
  old content followed by the data, and the result says whether there is room to spare. In every
  other case the call panics, although the data fits: a buffer of 600 bytes cannot take a piece of 100.\<close>

theorem fill_appends_one_read:
  assumes "read data (MESSAGE_BUFFER_SIZE - length buf) = (data1, Inr bs)" and "bs \<noteq> []"
    and "length buf + length bs \<le> MESSAGE_BUFFER_SIZE" and "\<forall>n. read data1 n = (data2, Inr [])"
  shows "fill_buffer_from read buf data =
     (if length buf + length bs = MESSAGE_BUFFER_SIZE then (buf @ bs, data1, Done (Inr False))
      else if 2 * length buf + length bs \<le> MESSAGE_BUFFER_SIZE then (buf @ bs, data2, Done (Inr True))
      else (buf @ bs @ replicate (MESSAGE_BUFFER_SIZE - length buf - length bs) 0, data1,
            Panic ''range start index out of range for slice''))"
proof -
  let ?buf = "resize MESSAGE_BUFFER_SIZE buf"
  let ?buf1 = "buf @ bs @ replicate (MESSAGE_BUFFER_SIZE - length buf - length bs) 0"
  have len: "length ?buf = MESSAGE_BUFFER_SIZE" using assms(3) by (simp add: resize_def)
  have rd: "read data (length ?buf - length buf) = (data1, Inr bs)" using assms(1) by (simp add: len)
  note buf1 = write_resized [OF assms(3)]
  show ?thesis
  proof (cases "length buf + length bs = MESSAGE_BUFFER_SIZE")
    case True
    then have "MAX_MESSAGE_BINARY_SIZE < length buf + length bs" by (simp add: MESSAGE_BUFFER_SIZE_def)
    then have "fill_loop read ?buf (length buf) (length buf) data = (?buf1, data1, Done (Inr (length buf + length bs)))"
      using fill_loop_stop [of read data ?buf "length buf" data1 bs "length buf"] rd by (simp add: buf1)
    with True show ?thesis by (simp add: fill_buffer_from_def Let_def)
  next
    case False
    then have le: "length buf + length bs \<le> MAX_MESSAGE_BINARY_SIZE" using assms(3) by (simp add: MESSAGE_BUFFER_SIZE_def)
    show ?thesis
    proof (cases "2 * length buf + length bs \<le> MESSAGE_BUFFER_SIZE")
      case True
      then have "fill_loop read ?buf (length buf) (length buf) data =
          fill_loop read ?buf1 (length buf + (length buf + length bs)) (length buf + length bs) data1"
        using fill_loop_go [of read data ?buf "length buf" data1 bs "length buf"] rd assms(2) le by (simp add: len buf1)
      also have "\<dots> = (?buf1, data2, Done (Inr (length buf + length bs)))"
        using fill_loop_stop [of read data1 ?buf1 _ data2 "[]"] assms(4) by simp
      finally show ?thesis using False True le by (simp add: fill_buffer_from_def Let_def MESSAGE_BUFFER_SIZE_def)
    next
      case wide: False
      then have "fill_loop read ?buf (length buf) (length buf) data =
          (?buf1, data1, Panic ''range start index out of range for slice'')"
        using fill_loop_panics [of read data ?buf "length buf" data1 bs "length buf"] rd assms(2) le by (simp add: len buf1)
      then show ?thesis using False wide assms(3) by (simp add: fill_buffer_from_def Let_def)
    qed
  qed
qed

theorem fill_appends_one_read_witness:
  "fill_buffer_from read_pieces [9] [[1, 2]] = ([9, 1, 2], [], Done (Inr True) :: (unit + bool) outcome) \<and>
   snd (snd (fill_buffer_from read_pieces (replicate 600 9) [replicate 100 1])) =
     (Panic ''range start index out of range for slice'' :: (unit + bool) outcome)"
proof
  have r: "read_pieces [[1, 2]] (MESSAGE_BUFFER_SIZE - length [9 :: u8]) = ([], Inr [1, 2] :: unit + u8 list)"
    "read_pieces [replicate 100 1] (MESSAGE_BUFFER_SIZE - length (replicate 600 (9 :: u8))) =
      ([], Inr (replicate 100 1) :: unit + u8 list)"
    "\<forall>n. read_pieces [] n = ([], Inr [] :: unit + u8 list)"
    by (simp_all add: buffer_sizes)
  show "fill_buffer_from read_pieces [9] [[1, 2]] = ([9, 1, 2], [], Done (Inr True) :: (unit + bool) outcome)"
    by (subst fill_appends_one_read [OF r(1) _ _ r(3)]) (simp_all add: buffer_sizes)
  show "snd (snd (fill_buffer_from read_pieces (replicate 600 9) [replicate 100 1])) =
     (Panic ''range start index out of range for slice'' :: (unit + bool) outcome)"
    by (subst fill_appends_one_read [OF r(2) _ _ r(3)]) (simp_all add: buffer_sizes)
qed

lemma write_zeros:
  "length xs \<le> off \<Longrightarrow> off + length bs \<le> length xs + m \<Longrightarrow> write_at off bs (xs @ replicate m 0) =
     xs @ replicate (off - length xs) 0 @ bs @ replicate (length xs + m - off - length bs) 0"
  by (simp add: write_at_def min_def add.commute) linarith

text \<open>C19: Data in several pieces is not appended. After every read the slice is advanced by the
  fill level instead of by the number of bytes just read. For any three pieces that are small enough, the third
  is written as many bytes too far as the first is long: the call succeeds, and the buffer ends with
  that many zero bytes in the place of the beginning of the third piece, whose end is cut off. And any two pieces that fit
  the buffer, but not together with the first one again, make the call panic.\<close>

theorem fill_loses_fragments:
  assumes "p1 \<noteq> []" and "p2 \<noteq> []" and "p3 \<noteq> []"
  shows "(3 * length p1 + 2 * length p2 + length p3 \<le> MESSAGE_BUFFER_SIZE \<longrightarrow>
      fill_buffer_from read_pieces [] [p1, p2, p3] =
        (p1 @ p2 @ take (length p3) (replicate (length p1) 0 @ p3), [], Done (Inr True) :: ('e + bool) outcome)) \<and>
    (length p1 + length p2 \<le> MAX_MESSAGE_BINARY_SIZE \<and> 2 * length p1 + length p2 > MESSAGE_BUFFER_SIZE \<longrightarrow>
      fill_buffer_from read_pieces [] (p1 # p2 # ps) =
        (p1 @ p2 @ replicate (MESSAGE_BUFFER_SIZE - length p1 - length p2) 0, ps,
         Panic ''range start index out of range for slice'' :: ('e + bool) outcome))"
proof -
  let ?N = MESSAGE_BUFFER_SIZE and ?a = "length p1" and ?b = "length p2" and ?c = "length p3"
  let ?read = "read_pieces :: u8 list list \<Rightarrow> nat \<Rightarrow> u8 list list \<times> ('e + u8 list)"
  have pos: "0 < ?a" "0 < ?b" "0 < ?c" using assms by simp_all
  have N: "?N = Suc MAX_MESSAGE_BINARY_SIZE" by (simp add: MESSAGE_BUFFER_SIZE_def)
  have first: "fill_loop ?read (replicate ?N 0) 0 0 (p1 # qs) = fill_loop ?read (p1 @ replicate (?N - ?a) 0) ?a ?a qs"
    if "?a \<le> MAX_MESSAGE_BINARY_SIZE" for qs
    using fill_loop_go [of ?read "p1 # qs" "replicate ?N 0" 0 qs p1 0] write_zeros [of "[]" 0 p1 ?N] assms(1) that N
    by simp
  let ?buf2 = "p1 @ p2 @ replicate (?N - ?a - ?b) 0"
  have w2: "write_at ?a p2 (p1 @ replicate (?N - ?a) 0) = ?buf2" if "?a + ?b \<le> ?N"
    using write_zeros [of p1 ?a p2 "?N - ?a"] that by (simp add: diff_diff_eq)
  have "fill_buffer_from ?read [] [p1, p2, p3] =
      (p1 @ p2 @ take ?c (replicate ?a 0 @ p3), [], Done (Inr True))" if fits: "3 * ?a + 2 * ?b + ?c \<le> ?N"
  proof -
    let ?buf3 = "p1 @ p2 @ replicate ?a 0 @ p3 @ replicate (?N - (2 * ?a + ?b + ?c)) 0"
    have second: "fill_loop ?read (p1 @ replicate (?N - ?a) 0) ?a ?a [p2, p3] =
        fill_loop ?read ?buf2 (?a + (?a + ?b)) (?a + ?b) [p3]"
      using fill_loop_go [of ?read "[p2, p3]" "p1 @ replicate (?N - ?a) 0" ?a "[p3]" p2 ?a] assms(2) fits pos w2 N by simp
    have w3: "write_at (?a + (?a + ?b)) p3 ?buf2 = ?buf3"
      using write_zeros [of "p1 @ p2" "?a + (?a + ?b)" p3 "?N - ?a - ?b"] fits by (simp add: diff_diff_eq)
    have third: "fill_loop ?read ?buf2 (?a + (?a + ?b)) (?a + ?b) [p3] =
        fill_loop ?read ?buf3 (?a + (?a + ?b) + (?a + ?b + ?c)) (?a + ?b + ?c) []"
      using fill_loop_go [of ?read "[p3]" ?buf2 "?a + (?a + ?b)" "[]" p3 "?a + ?b"] assms(3) fits pos w3 N by simp
    have "fill_loop ?read (replicate ?N 0) 0 0 [p1, p2, p3] = (?buf3, [], Done (Inr (?a + ?b + ?c)))"
      using first [of "[p2, p3]"] second third fill_loop_stop [of ?read "[]" ?buf3 _ "[]" "[]"] fits pos N by simp
    moreover have "?a + ?b + ?c < ?N" using fits pos by linarith
    ultimately show ?thesis by (simp add: fill_buffer_from_def resize_def Let_def)
  qed
  moreover have "fill_buffer_from ?read [] (p1 # p2 # ps) =
      (?buf2, ps, Panic ''range start index out of range for slice'')"
    if fits: "?a + ?b \<le> MAX_MESSAGE_BINARY_SIZE" and wide: "2 * ?a + ?b > ?N"
  proof -
    have "fill_loop ?read (p1 @ replicate (?N - ?a) 0) ?a ?a (p2 # ps) =
        (?buf2, ps, Panic ''range start index out of range for slice'')"
      using fill_loop_panics [of ?read "p2 # ps" "p1 @ replicate (?N - ?a) 0" ?a ps p2 ?a] assms(2) fits wide w2 N by simp
    then show ?thesis
      using first [of "p2 # ps"] fits by (simp add: fill_buffer_from_def resize_def Let_def)
  qed
  ultimately show ?thesis by blast
qed

theorem fill_loses_fragments_witness:
  "fill_buffer_from read_pieces [] [[1], [2], [3]] =
     ([1, 2, 0], [], Done (Inr True) :: (unit + bool) outcome) \<and>
   snd (snd (fill_buffer_from read_pieces [] [replicate 600 1, replicate 100 2])) =
     (Panic ''range start index out of range for slice'' :: (unit + bool) outcome)"
  using fill_loses_fragments [of "[1]" "[2]" "[3]", where 'e = unit, THEN conjunct1]
    fill_loses_fragments [of "replicate 600 1" "replicate 100 2" "[3]" "[]", where 'e = unit, THEN conjunct2]
  by (simp add: buffer_sizes)

section \<open>How often the stream is read\<close>

text \<open>The same stream with a counter of the calls to \<^verbatim>\<open>read\<close>.\<close>

definition counted :: "('d \<Rightarrow> nat \<Rightarrow> 'd \<times> ('e + u8 list)) \<Rightarrow> 'd \<times> nat \<Rightarrow> nat \<Rightarrow> ('d \<times> nat) \<times> ('e + u8 list)" where
  "counted read dk n = (case read (fst dk) n of (d', r) \<Rightarrow> ((d', snd dk + 1), r))"

lemma fill_loop_counted:
  "\<exists>k'. fill_loop (counted read) buf off n (data, k) =
     (case fill_loop read buf off n data of (b, data', r) \<Rightarrow> (b, (data', k'), r)) \<and>
   k' \<le> k + Suc (MAX_MESSAGE_BINARY_SIZE - n)"
proof (induction read buf off n data arbitrary: k rule: fill_loop.induct)
  case (1 read buf off n data)
  obtain data1 res where rd: "read data (length buf - off) = (data1, res)" by fastforce
  then have rdc: "counted read (data, k) (length buf - off) = ((data1, k + 1), res)"
    by (simp add: counted_def)
  show ?case
  proof (cases res)
    case (Inl e)
    then show ?thesis
      by (intro exI [of _ "k + 1"]) (simp add: fill_loop.simps [of _ buf] rd rdc)
  next
    case (Inr bs)
    let ?n = "n + length bs"
    show ?thesis
    proof (cases "bs = [] \<or> ?n > MAX_MESSAGE_BINARY_SIZE \<or> ?n > length buf - off")
      case True
      then show ?thesis
        using Inr by (intro exI [of _ "k + 1"]) (auto simp: fill_loop.simps [of _ buf] rd rdc Let_def)
    next
      case False
      then have go: "\<not> (bs = [] \<or> ?n > MAX_MESSAGE_BINARY_SIZE)" "\<not> ?n > length buf - off" by auto
      obtain k' where k': "fill_loop (counted read) (write_at off bs buf) (off + ?n) ?n (data1, k + 1) =
          (case fill_loop read (write_at off bs buf) (off + ?n) ?n data1 of (b, data', r) \<Rightarrow> (b, (data', k'), r))"
          "k' \<le> k + 1 + Suc (MAX_MESSAGE_BINARY_SIZE - ?n)"
        using 1 [OF rd [symmetric] Inr refl refl go, of "k + 1"] by blast
      have "length bs > 0" using go(1) by simp
      then have "k' \<le> k + Suc (MAX_MESSAGE_BINARY_SIZE - n)" using k'(2) go(1) by linarith
      then show ?thesis
        using k'(1) go Inr
        by (intro exI [of _ k']) (simp add: fill_loop.simps [of _ buf off] rd rdc Let_def)
    qed
  qed
qed

text \<open>C20: The read loop ends for every stream. Filling a buffer calls \<^verbatim>\<open>read\<close> at most once more than
  the number of bytes that are missing to the maximal size of a message, even if the stream never
  ends and delivers single bytes; counting the calls does not change the result.\<close>

theorem fill_reads_bounded:
  "\<exists>k. fill_buffer_from (counted read) buf (data, 0) =
     (case fill_buffer_from read buf data of (b, data', r) \<Rightarrow> (b, (data', k), r)) \<and>
   k \<le> Suc (MAX_MESSAGE_BINARY_SIZE - length buf)"
proof (cases "length buf \<le> MESSAGE_BUFFER_SIZE")
  case True
  then show ?thesis
    using fill_loop_counted [of read "resize MESSAGE_BUFFER_SIZE buf" "length buf" "length buf" data 0]
    by (auto simp: fill_buffer_from_def Let_def split: prod.splits outcome.splits sum.splits)
next
  case False
  then show ?thesis by (intro exI [of _ 0]) (simp add: fill_buffer_from_def)
qed

end
