(* ===== verification/Endpoint_Protocol.thy ===== *)
theory Endpoint_Protocol
  imports Channel_Messages Fill_Buffer
begin

text \<open>
  \<^verbatim>\<open>EndpointProtocol\<close> and \<^verbatim>\<open>EndpointProtocolClient\<close> of
  \<^verbatim>\<open>src/src/protocol/proxy/endpoint.rs\<close>, over a base connection of \<open>Protocol\<close>.

  \<^verbatim>\<open>serde_json\<close> is a parameter: \<open>to_vec\<close> serialises a client message, and \<open>next_value\<close> is what one
  step of a stream deserializer yields for a buffer, with its byte offset. \<open>read\<close> reads
  from a stream, as in \<open>Fill_Buffer\<close>. An \<^verbatim>\<open>Arc\<close> is seen through its reference counts where the
  source depends on them.

  The two receive loops end only when the base connection delivers something; they are
  partial functions whose value \<open>None\<close> means that they never return.
\<close>

section \<open>Data\<close>

definition ENDPOINT_PROTOCOL_VERSION :: u32 where
  "ENDPOINT_PROTOCOL_VERSION = 0"

datatype ('io, 'j) proxy_error =
    ConnectionError string
  | IncompleteMessage nat
  | IoError 'io
  | JsonError 'j
  | MessageTooLarge
  | MoreThanOneClient
  | ServerCreatedChannel u32
  | UnknownChannelId u32 string
  | UnknownSerializationFormat "string list" string
  | WrongMessage "string list" string
  | WrongVersion u32 u32

text \<open>The texts of the errors. \<^verbatim>\<open>{:?}\<close> prints a list of names in brackets and the names in quotation
  marks; the names printed here have no characters that it escapes.\<close>

definition debug_names :: "string list \<Rightarrow> string" where
  "debug_names xs =
     ''['' @ concat (map (\<lambda>i. (if i = 0 then [] else '', '') @ CHR 0x22 # xs ! i @ [CHR 0x22]) [0..<length xs]) @ '']''"

definition proxy_error_fmt :: "('io \<Rightarrow> string) \<Rightarrow> ('j \<Rightarrow> string) \<Rightarrow> ('io, 'j) proxy_error \<Rightarrow> string" where
  "proxy_error_fmt io_fmt json_fmt e =
     (case e of
        ConnectionError err \<Rightarrow> ''base connection error: '' @ err
      | IncompleteMessage n \<Rightarrow> ''message is incomplete after reading '' @ show_nat n @ '' bytes''
      | IoError err \<Rightarrow> ''I/O error: '' @ io_fmt err
      | JsonError err \<Rightarrow> ''JSON error: '' @ json_fmt err
      | MessageTooLarge \<Rightarrow> ''message too large to deserialize''
      | MoreThanOneClient \<Rightarrow> ''can only create a single client or server from an `EndpointProtocol`''
      | ServerCreatedChannel c \<Rightarrow> ''server created a new channel with ID '' @ show_nat (unat c)
      | UnknownChannelId c message_name \<Rightarrow>
          ''received an unknown channel ID '' @ show_nat (unat c) @ '' for message: '' @ message_name
      | UnknownSerializationFormat expected received \<Rightarrow>
          ''server selected an unknown serialization format: '' @ received @ ''. Expected one of: '' @ received
      | WrongMessage expected received \<Rightarrow>
          ''received a '' @ received @ '' message but expected one of: '' @ debug_names expected
      | WrongVersion expected received \<Rightarrow>
          ''expected a `Hello` message with version '' @ show_nat (unat expected) @
          '', received version '' @ show_nat (unat received))"

datatype serialization_format = Json

definition serialization_format_name :: "serialization_format \<Rightarrow> string" where
  "serialization_format_name f = (case f of Json \<Rightarrow> ''Json'')"

definition serialization_format_try_from :: "string \<Rightarrow> serialization_format option" where
  "serialization_format_try_from s = (if s = ''Json'' then Some Json else None)"

definition SERIALIZATION_FORMATS :: "string list" where
  "SERIALIZATION_FORMATS = map serialization_format_name [Json]"

definition serialize :: "('m \<Rightarrow> 'j + u8 list) \<Rightarrow> serialization_format \<Rightarrow> 'm \<Rightarrow> ('io, 'j) proxy_error + u8 list" where
  "serialize to_vec format data =
     (case format of
        Json \<Rightarrow> (case to_vec data of Inl e \<Rightarrow> Inl (JsonError e) | Inr bytes \<Rightarrow> Inr bytes))"

definition deserialize ::
    "(u8 list \<Rightarrow> ('j + 'm) option \<times> nat) \<Rightarrow> ('j \<Rightarrow> bool) \<Rightarrow> serialization_format \<Rightarrow> u8 list \<Rightarrow>
     ('io, 'j) proxy_error + (nat \<times> 'm) option" where
  "deserialize next_value is_eof format buffer =
     (case format of
        Json \<Rightarrow>
          (case next_value buffer of
             (Some (Inr message), byte_offset) \<Rightarrow> Inr (Some (byte_offset, message))
           | (Some (Inl err), _) \<Rightarrow> if is_eof err then Inr None else Inl (JsonError err)
           | (None, _) \<Rightarrow> Inr None))"

section \<open>The protocol object\<close>

record arc_counts =
  strong :: nat
  weak :: nat

definition arc_new :: arc_counts where
  "arc_new = \<lparr>strong = 1, weak = 0\<rparr>"

definition arc_downgrade :: "arc_counts \<Rightarrow> arc_counts" where
  "arc_downgrade a = a\<lparr>weak := weak a + 1\<rparr>"

text \<open>\<^verbatim>\<open>Arc::get_mut\<close> is \<^verbatim>\<open>None\<close> when any other \<^verbatim>\<open>Arc\<close> or \<^verbatim>\<open>Weak\<close> points to the value.\<close>

definition arc_get_mut :: "arc_counts \<Rightarrow> bool" where
  "arc_get_mut a \<longleftrightarrow> strong a = 1 \<and> weak a = 0"

datatype weak_ref = Dangling | WeakTo

record ('s, 'r, 'sock) endpoint_protocol =
  epp_name :: string
  epp_multiplexing :: u32
  epp_sockets :: bool
  epp_base_connection :: "('s, 'r, 'sock) connection option"
  epp_this :: weak_ref

definition endpoint_protocol_new ::
    "('s, 'r, 'sock) connection \<Rightarrow> ('s, 'r, 'sock) endpoint_protocol outcome" where
  "endpoint_protocol_new base_connection =
     (let base_capabilities = conn_capabilities base_connection;
          res = \<lparr>epp_name = ''endpoint protocol over '' @ conn_protocol_name base_connection,
            epp_multiplexing =
              (if cap_multiplexing base_capabilities = 1 then - 1
               else cap_multiplexing base_capabilities),
            epp_sockets = False,
            epp_base_connection = Some base_connection,
            epp_this = Dangling\<rparr>;
          counts = arc_downgrade arc_new
      in if arc_get_mut counts then Done (res\<lparr>epp_this := WeakTo\<rparr>)
         else Panic ''called `Option::unwrap()` on a `None` value'')"

definition endpoint_protocol_capabilities ::
    "('s, 'r, 'sock) endpoint_protocol \<Rightarrow> protocol_capabilities" where
  "endpoint_protocol_capabilities ep =
     \<lparr>cap_client = True, cap_server = True, cap_disasm = False, cap_message_boundaries = True,
      cap_multiplexing = epp_multiplexing ep, cap_sockets = epp_sockets ep\<rparr>"

section \<open>The client\<close>

record ('s, 'r, 'sock) endpoint_client =
  epc_states :: "(u32, channel_state) hash_map"
  epc_base_connection :: "('s, 'r, 'sock) connection"
  epc_endpoint_protocol :: string
  epc_base_capabilities :: protocol_capabilities
  epc_next_channel_id :: u32
  epc_read_buffer_map :: "(u32 option, u8 list) hash_map"
  epc_stream_left :: "('r reader \<times> u32) option"
  epc_serialization_format :: serialization_format

definition with_conn_state :: "('s, 'r, 'sock) endpoint_client \<Rightarrow> 's \<Rightarrow> ('s, 'r, 'sock) endpoint_client" where
  "with_conn_state cl s = cl\<lparr>epc_base_connection := (epc_base_connection cl)\<lparr>conn_state := s\<rparr>\<rparr>"

text \<open>\<^verbatim>\<open>self.base_connection.send(message).await?\<close>\<close>

definition base_send ::
    "('s, 'r, 'sock) endpoint_client \<Rightarrow> ('r, 'sock) message \<Rightarrow>
     ('s, 'r, 'sock) endpoint_client \<times> (('io, 'j) proxy_error + unit) outcome" where
  "base_send cl m =
     (case conn_send (epc_base_connection cl) (conn_state (epc_base_connection cl)) m of
        (s, Panic p) \<Rightarrow> (with_conn_state cl s, Panic p)
      | (s, Done (Inl e)) \<Rightarrow> (with_conn_state cl s, Done (Inl (ConnectionError e)))
      | (s, Done (Inr _)) \<Rightarrow> (with_conn_state cl s, Done (Inr ())))"

definition send_client_message ::
    "(client_message \<Rightarrow> 'j + u8 list) \<Rightarrow> ('s, 'r, 'sock) endpoint_client \<Rightarrow> client_message \<Rightarrow>
     ('s, 'r, 'sock) endpoint_client \<times> (('io, 'j) proxy_error + unit) outcome" where
  "send_client_message to_vec cl message0 =
     (let (m1, taken) = client_take_channel_id message0
      in if taken = Missing then (cl, Panic ''BUG: missing channel ID'')
         else
           let channel_id = (case taken of Id c \<Rightarrow> Some c | _ \<Rightarrow> None);
               (m2, channel_id2) =
                 (case channel_id of
                    Some c \<Rightarrow>
                      if cap_multiplexing (epc_base_capabilities cl) = 1
                      then (client_set_channel_id c m1, None) else (m1, channel_id)
                  | None \<Rightarrow> (m1, channel_id))
           in (case serialize to_vec (epc_serialization_format cl) m2 :: ('io, 'j) proxy_error + u8 list of
                 Inl _ \<Rightarrow> (cl, Panic ''called `Result::unwrap()` on an `Err` value'')
               | Inr payload \<Rightarrow>
                   base_send cl ((with_data_from_buffer payload)\<lparr>msg_channel_id := channel_id2\<rparr>)))"

partial_function (option) receive_message_with_data ::
    "('s, 'r, 'sock) endpoint_client \<Rightarrow>
     (('s, 'r, 'sock) endpoint_client \<times>
      (('io, 'j) proxy_error + 'r reader \<times> u32 option) outcome) option" where
  "receive_message_with_data cl =
     (case conn_receive (epc_base_connection cl) (conn_state (epc_base_connection cl)) of
        (s, Panic p) \<Rightarrow> Some (with_conn_state cl s, Panic p)
      | (s, Done (Inl e)) \<Rightarrow> Some (with_conn_state cl s, Done (Inl (ConnectionError e)))
      | (s, Done (Inr message)) \<Rightarrow>
          (case msg_data message of
             None \<Rightarrow> receive_message_with_data (with_conn_state cl s)
           | Some data \<Rightarrow>
               Some (with_conn_state cl s,
                 Done (Inr (data,
                   if cap_multiplexing (epc_base_capabilities cl) = 1 then None
                   else msg_channel_id message)))))"

definition with_buffer ::
    "('s, 'r, 'sock) endpoint_client \<Rightarrow> u32 option \<Rightarrow> u8 list \<Rightarrow> ('s, 'r, 'sock) endpoint_client" where
  "with_buffer cl c buf = cl\<lparr>epc_read_buffer_map := hm_insert c buf (epc_read_buffer_map cl)\<rparr>"

text \<open>The part of the loop body of \<^verbatim>\<open>receive_server_message\<close> after a stream is at hand.
  The argument of \<^verbatim>\<open>ok_or\<close> is evaluated whether or not the buffer is found. With
  \<open>Done (Inr ())\<close> the loop goes round again; the stream is dropped at the end of each round.\<close>

definition buffer_data ::
    "('r reader \<Rightarrow> nat \<Rightarrow> 'r reader \<times> ('io + u8 list)) \<Rightarrow> ('s, 'r, 'sock) endpoint_client \<Rightarrow>
     'r reader \<Rightarrow> u32 option \<Rightarrow>
     ('s, 'r, 'sock) endpoint_client \<times> (('io, 'j) proxy_error + unit) outcome" where
  "buffer_data read cl data channel_id =
     (case channel_id of
        None \<Rightarrow> (cl, Panic ''BUG: the default channel is not present in the read buffer map'')
      | Some c \<Rightarrow>
          (case hm_get (epc_read_buffer_map cl) channel_id of
             None \<Rightarrow> (cl, Done (Inl (ServerCreatedChannel c)))
           | Some read_buffer \<Rightarrow>
               (case fill_buffer_from read read_buffer data of
                  (buf, _, Panic p) \<Rightarrow> (with_buffer cl channel_id buf, Panic p)
                | (buf, _, Done (Inl e)) \<Rightarrow> (with_buffer cl channel_id buf, Done (Inl (IoError e)))
                | (buf, _, Done (Inr data_is_exhausted)) \<Rightarrow>
                    if length buf > MAX_MESSAGE_BINARY_SIZE \<and>
                       cap_message_boundaries (epc_base_capabilities cl)
                    then (with_buffer cl channel_id [], Done (Inl MessageTooLarge))
                    else (with_buffer cl channel_id buf, Done (Inr ())))))"

text \<open>A message with the buffer it borrows from; its two methods are not implemented.\<close>

record owned_server_message =
  osm_message :: server_message
  osm_buffer :: "u8 list"

definition owned_new ::
    "u8 list \<Rightarrow> (u8 list \<Rightarrow> ('io, 'j) proxy_error + (nat \<times> server_message) option) \<Rightarrow>
     (('io, 'j) proxy_error + owned_server_message) outcome" where
  "owned_new buffer deserialize_from = unimplemented"

definition owned_get :: "owned_server_message \<Rightarrow> server_message outcome" where
  "owned_get m = unimplemented"

partial_function (option) receive_server_message ::
    "('r reader \<Rightarrow> nat \<Rightarrow> 'r reader \<times> ('io + u8 list)) \<Rightarrow> ('s, 'r, 'sock) endpoint_client \<Rightarrow>
     (('s, 'r, 'sock) endpoint_client \<times> (('io, 'j) proxy_error + owned_server_message) outcome) option" where
  "receive_server_message read cl =
     (case (case epc_stream_left cl of
              Some (data, c) \<Rightarrow> Some (cl\<lparr>epc_stream_left := None\<rparr>, Done (Inr (data, Some c)))
            | None \<Rightarrow> receive_message_with_data cl) of
        None \<Rightarrow> None
      | Some (cl1, Panic p) \<Rightarrow> Some (cl1, Panic p)
      | Some (cl1, Done (Inl e)) \<Rightarrow> Some (cl1, Done (Inl e))
      | Some (cl1, Done (Inr (data, channel_id))) \<Rightarrow>
          (case buffer_data read cl1 data channel_id of
             (cl2, Panic p) \<Rightarrow> Some (cl2, Panic p)
           | (cl2, Done (Inl e)) \<Rightarrow> Some (cl2, Done (Inl e))
           | (cl2, Done (Inr _)) \<Rightarrow> receive_server_message read cl2))"

text \<open>The match on the reply to \<^verbatim>\<open>Hello\<close>.\<close>

definition check_hello :: "server_message \<Rightarrow> ('io, 'j) proxy_error + serialization_format" where
  "check_hello reply =
     (case reply of
        SHello version format \<Rightarrow>
          if version \<noteq> ENDPOINT_PROTOCOL_VERSION
          then Inl (WrongVersion ENDPOINT_PROTOCOL_VERSION version)
          else (case serialization_format_try_from format of
                  Some f \<Rightarrow> Inr f
                | None \<Rightarrow> Inl (UnknownSerializationFormat SERIALIZATION_FORMATS format))
      | x \<Rightarrow> Inl (WrongMessage [''Hello''] (server_message_name x)))"

definition client_init ::
    "(client_message \<Rightarrow> 'j + u8 list) \<Rightarrow> ('r reader \<Rightarrow> nat \<Rightarrow> 'r reader \<times> ('io + u8 list)) \<Rightarrow>
     ('s, 'r, 'sock) endpoint_client \<Rightarrow>
     (('s, 'r, 'sock) endpoint_client \<times> (('io, 'j) proxy_error + unit) outcome) option" where
  "client_init to_vec read cl =
     (case send_client_message to_vec cl (CHello ENDPOINT_PROTOCOL_VERSION SERIALIZATION_FORMATS) of
        (cl1, Panic p) \<Rightarrow> Some (cl1, Panic p)
      | (cl1, Done (Inl e)) \<Rightarrow> Some (cl1, Done (Inl e))
      | (cl1, Done (Inr _)) \<Rightarrow>
          (case receive_server_message read cl1 of
             None \<Rightarrow> None
           | Some (cl2, Panic p) \<Rightarrow> Some (cl2, Panic p)
           | Some (cl2, Done (Inl e)) \<Rightarrow> Some (cl2, Done (Inl e))
           | Some (cl2, Done (Inr reply)) \<Rightarrow>
               (case owned_get reply of
                  Panic p \<Rightarrow> Some (cl2, Panic p)
                | Done m \<Rightarrow>
                    (case check_hello m of
                       Inl e \<Rightarrow> Some (cl2, Done (Inl e))
                     | Inr f \<Rightarrow> Some (cl2\<lparr>epc_serialization_format := f\<rparr>, Done (Inr ()))))))"

definition client_fresh ::
    "('s, 'r, 'sock) connection \<Rightarrow> string \<Rightarrow> ('s, 'r, 'sock) endpoint_client" where
  "client_fresh base_connection endpoint_protocol =
     \<lparr>epc_states = [], epc_base_connection = base_connection,
      epc_endpoint_protocol = endpoint_protocol,
      epc_base_capabilities = conn_capabilities base_connection,
      epc_next_channel_id = 0, epc_read_buffer_map = [(None, [])],
      epc_stream_left = None, epc_serialization_format = Json\<rparr>"

definition client_new ::
    "(client_message \<Rightarrow> 'j + u8 list) \<Rightarrow> ('r reader \<Rightarrow> nat \<Rightarrow> 'r reader \<times> ('io + u8 list)) \<Rightarrow>
     ('s, 'r, 'sock) connection \<Rightarrow> string \<Rightarrow>
     (('io, 'j) proxy_error + ('s, 'r, 'sock) endpoint_client) outcome option" where
  "client_new to_vec read base_connection endpoint_protocol =
     (case client_init to_vec read (client_fresh base_connection endpoint_protocol) of
        None \<Rightarrow> None
      | Some (cl, Panic p) \<Rightarrow> Some (Panic p)
      | Some (cl, Done (Inl e)) \<Rightarrow> Some (Done (Inl e))
      | Some (cl, Done (Inr _)) \<Rightarrow> Some (Done (Inr cl)))"

datatype ('io, 'j) new_client_error =
    TakenBefore "('io, 'j) proxy_error"
  | ProtocolDropped
  | WhileInitializing "('io, 'j) proxy_error"

text \<open>\<open>alive\<close> says whether an \<^verbatim>\<open>Arc\<close> of the protocol is left when \<^verbatim>\<open>Weak::upgrade\<close> is called. The
  base connection is taken out before that.\<close>

definition endpoint_new_client ::
    "(client_message \<Rightarrow> 'j + u8 list) \<Rightarrow> ('r reader \<Rightarrow> nat \<Rightarrow> 'r reader \<times> ('io + u8 list)) \<Rightarrow>
     bool \<Rightarrow> ('s, 'r, 'sock) endpoint_protocol \<Rightarrow>
     ('s, 'r, 'sock) endpoint_protocol \<times>
     (('io, 'j) new_client_error + ('s, 'r, 'sock) endpoint_client) outcome option" where
  "endpoint_new_client to_vec read alive ep =
     (case epp_base_connection ep of
        None \<Rightarrow> (ep, Some (Done (Inl (TakenBefore MoreThanOneClient))))
      | Some base_connection \<Rightarrow>
          let ep' = ep\<lparr>epp_base_connection := None\<rparr>
          in if epp_this ep = Dangling \<or> \<not> alive then (ep', Some (Done (Inl ProtocolDropped)))
             else (ep',
               (case client_new to_vec read base_connection (epp_name ep) of
                  None \<Rightarrow> None
                | Some (Panic p) \<Rightarrow> Some (Panic p)
                | Some (Done (Inl e)) \<Rightarrow> Some (Done (Inl (WhileInitializing e)))
                | Some (Done (Inr cl)) \<Rightarrow> Some (Done (Inr cl)))))"

definition endpoint_new_server :: "('s, 'r, 'sock) endpoint_protocol \<Rightarrow> socket_addr \<Rightarrow> 'server fallible" where
  "endpoint_new_server ep address = unimplemented"

text \<open>The client as a connection of \<open>protocol\<close>, the object behind \<^verbatim>\<open>endpoint_protocol\<close>: none of the
  methods is implemented, and \<^verbatim>\<open>disassemble\<close> is that of the trait.\<close>

definition endpoint_client_connection ::
    "('conn, 'server, 'sock) protocol \<Rightarrow> ('s, 'r, 'sock) endpoint_client \<Rightarrow>
     (('s, 'r, 'sock) endpoint_client, 'r, 'sock) connection" where
  "endpoint_client_connection protocol cl =
     (connection_default cl protocol (\<lambda>cl message. (cl, unimplemented)) (\<lambda>cl. (cl, unimplemented)))
       \<lparr>conn_new_channel := (\<lambda>cl. (cl, unimplemented))\<rparr>"

section \<open>The receive loops\<close>

text \<open>Receiving messages without data, any number of times.\<close>

inductive skips :: "('s, 'r, 'sock) connection \<Rightarrow> 's \<Rightarrow> 's \<Rightarrow> bool" for conn where
  none: "skips conn s s"
| more: "conn_receive conn s = (s1, Done (Inr m)) \<Longrightarrow> msg_data m = None \<Longrightarrow> skips conn s1 s2 \<Longrightarrow>
    skips conn s s2"

lemma with_conn_state_simps [simp]:
  "conn_state (epc_base_connection (with_conn_state cl s)) = s"
  "conn_receive (epc_base_connection (with_conn_state cl s)) = conn_receive (epc_base_connection cl)"
  "conn_send (epc_base_connection (with_conn_state cl s)) = conn_send (epc_base_connection cl)"
  "epc_base_capabilities (with_conn_state cl s) = epc_base_capabilities cl"
  "epc_read_buffer_map (with_conn_state cl s) = epc_read_buffer_map cl"
  "epc_stream_left (with_conn_state cl s) = epc_stream_left cl"
  "with_conn_state (with_conn_state cl s) s' = with_conn_state cl s'"
  by (simp_all add: with_conn_state_def)

lemma receive_after_skips:
  assumes "skips (epc_base_connection cl) s s'"
  shows "receive_message_with_data (with_conn_state cl s) =
     receive_message_with_data (with_conn_state cl s')"
  using assms
proof (induction rule: skips.induct)
  case (none s)
  then show ?case ..
next
  case (more s s1 m s2)
  then show ?case
    by (subst receive_message_with_data.simps) simp
qed

text \<open>With only the default channel in the buffer map, the first message with data ends the loop.\<close>

lemma receive_server_first:
  fixes read :: "'r reader \<Rightarrow> nat \<Rightarrow> 'r reader \<times> ('io + u8 list)"
  assumes "receive_message_with_data cl =
      Some (cl1, Done (Inr (data, channel_id)) :: (('io, 'j) proxy_error + 'r reader \<times> u32 option) outcome)"
    and "epc_stream_left cl = None" and "dom (hm_get (epc_read_buffer_map cl1)) \<subseteq> {None}"
  shows "receive_server_message read cl = Some (cl1,
     (case channel_id of
        None \<Rightarrow> Panic ''BUG: the default channel is not present in the read buffer map''
      | Some c \<Rightarrow> Done (Inl (ServerCreatedChannel c))) :: (('io, 'j) proxy_error + owned_server_message) outcome)"
proof (cases channel_id)
  case None
  then show ?thesis
    by (subst receive_server_message.simps) (simp add: assms(1,2) buffer_data_def)
next
  case (Some c)
  then have "hm_get (epc_read_buffer_map cl1) channel_id = None"
    using assms(3) by (auto simp: dom_def)
  with Some show ?thesis
    by (subst receive_server_message.simps) (simp add: assms(1,2) buffer_data_def)
qed

text \<open>No branch of the loop produces a message.\<close>

lemma receive_server_never_ok:
  fixes r :: "(('io, 'j) proxy_error + owned_server_message) outcome"
  assumes "receive_server_message read cl = Some (cl', r)"
  shows "r \<noteq> Done (Inr m)"
proof -
  have "snd (cl', r) \<noteq> Done (Inr m)"
    using _ assms
  proof (rule receive_server_message.raw_induct [where P = "\<lambda>_ _ x. snd x \<noteq> Done (Inr m)"], goal_cases)
    case (1 recv read cl x)
    from 1(2) show ?case
      by (auto split: option.splits prod.splits outcome.splits sum.splits dest: 1(1))
  qed
  then show ?thesis by simp
qed

lemma receive_server_no_message: "receive_server_message read cl = Some (cl', Done (Inr m)) \<Longrightarrow> False"
  using receive_server_never_ok by blast

section \<open>Properties\<close>

text \<open>A connection that accepts everything sent to it and receives from a script; its state is
  the messages sent and the messages still to come.\<close>

definition scripted ::
    "u32 \<Rightarrow> ('r, 'sock) message list \<Rightarrow>
     (('r, 'sock) message list \<times> ('r, 'sock) message list, 'r, 'sock) connection" where
  "scripted channels incoming =
     connection_default ([], incoming)
       ((protocol_default ''script'' :: (unit, unit, 'sock) protocol)\<lparr>proto_capabilities :=
          protocol_capabilities_default\<lparr>cap_multiplexing := channels\<rparr>\<rparr>)
       (\<lambda>(sent, inc) m. ((sent @ [m], inc), Done (Inr ())))
       (\<lambda>(sent, inc). case inc of
          [] \<Rightarrow> ((sent, []), Done (Inl ''closed''))
        | m # ms \<Rightarrow> ((sent, ms), Done (Inr m)))"

lemmas proxy_eval = scripted_def connection_default_def protocol_default_def client_fresh_def
  protocol_capabilities_default_def with_data_from_buffer_def with_data_def message_default_def

text \<open>C21: A channel message carries its channel id exactly once. Sending a message with a channel
  id hands exactly one message to the base connection: over a connection without multiplexing the
  id is part of the serialised message and not of its envelope, over one with multiplexing it is
  in the envelope and not in the serialised message. The envelope states the length of the
  payload.\<close>

theorem channel_id_travels_once:
  assumes "client_take_channel_id msg = (stripped, Id c)"
    and "to_vec (if cap_multiplexing (epc_base_capabilities cl) = 1 then msg else stripped) = Inr payload"
  shows "send_client_message to_vec cl msg = base_send cl
     \<lparr>msg_data = Some (Cursor payload), msg_size = Some (of_nat (length payload)),
      msg_channel_id = (if cap_multiplexing (epc_base_capabilities cl) = 1 then None else Some c),
      msg_sockets = [], msg_meta = []\<rparr>"
proof -
  have "client_set_channel_id c stripped = msg"
    using cli.restored [OF assms(1)] by blast
  then show ?thesis
    using assms
    by (cases "epc_serialization_format cl")
       (auto simp: send_client_message_def serialize_def with_data_from_buffer_def with_data_def
         message_default_def)
qed

theorem channel_id_travels_once_witness:
  "\<exists>cl'. send_client_message (\<lambda>m. Inr (if m = CDataEnd None then [7] else []) :: unit + u8 list)
       (client_fresh (scripted 16 [] :: (_, unit, unit) connection) ''e'') (CDataEnd (Some 5)) =
       (cl', Done (Inr ()) :: ((unit, unit) proxy_error + unit) outcome) \<and>
     map msg_channel_id (fst (conn_state (epc_base_connection cl'))) = [Some 5]"
proof -
  let ?cl = "client_fresh (scripted 16 [] :: (_, unit, unit) connection) ''e''"
  let ?v = "\<lambda>m. Inr (if m = CDataEnd None then [7] else []) :: unit + u8 list"
  have t: "client_take_channel_id (CDataEnd (Some 5)) = (CDataEnd None, Id 5)" by simp
  have v: "?v (if cap_multiplexing (epc_base_capabilities ?cl) = 1 then CDataEnd (Some 5) else CDataEnd None) = Inr [7]"
    by (simp add: proxy_eval)
  show ?thesis
    by (subst channel_id_travels_once [OF t, of ?v ?cl "[7]", OF v])
       (simp add: base_send_def with_conn_state_def proxy_eval)
qed

lemma client_new_never_ok: "client_new to_vec read base name \<noteq> Some (Done (Inr cl))"
  by (auto simp: client_new_def client_init_def
      split: option.splits prod.splits outcome.splits sum.splits dest!: receive_server_no_message)

text \<open>C34: The handshake cannot succeed. Whatever the base connection, the serialiser and the
  streams do, creating a client never returns one: the calls end in an error or a panic, or never
  return.\<close>

theorem handshake_never_succeeds:
  "client_new to_vec read base name \<noteq> Some (Done (Inr cl)) \<and>
   snd (endpoint_new_client to_vec read alive ep) \<noteq> Some (Done (Inr cl'))"
  by (auto simp: endpoint_new_client_def Let_def client_new_never_ok
      split: option.splits outcome.splits sum.splits)

text \<open>C35: How the handshake ends. When the hello could be sent and the endpoint answers, after any
  number of messages without data, with a message that has data, the attempt is over: an answer
  on the default channel, which is the only possible one over a connection without multiplexing,
  makes the client panic, and an answer on any other channel is refused.\<close>

theorem handshake_outcome:
  fixes read :: "'r reader \<Rightarrow> nat \<Rightarrow> 'r reader \<times> ('io + u8 list)"
    and to_vec :: "client_message \<Rightarrow> 'j + u8 list"
  assumes "to_vec (CHello ENDPOINT_PROTOCOL_VERSION SERIALIZATION_FORMATS) = Inr payload"
    and "conn_send base (conn_state base) (with_data_from_buffer payload) = (s1, Done (Inr ()))"
    and "skips base s1 s2" and "conn_receive base s2 = (s3, Done (Inr m))" and "msg_data m = Some data"
  shows "client_new to_vec read base name = Some
     (if cap_multiplexing (conn_capabilities base) = 1 \<or> msg_channel_id m = None
      then Panic ''BUG: the default channel is not present in the read buffer map''
      else Done (Inl (ServerCreatedChannel (the (msg_channel_id m)))))"
proof -
  let ?cl = "client_fresh base name"
  let ?c = "if cap_multiplexing (conn_capabilities base) = 1 then None else msg_channel_id m"
  have cl: "epc_base_connection ?cl = base" "epc_stream_left ?cl = None"
      "epc_base_capabilities ?cl = conn_capabilities base" "epc_read_buffer_map ?cl = [(None, [])]"
      "epc_serialization_format ?cl = Json"
    by (simp_all add: client_fresh_def)
  have env: "(with_data_from_buffer payload)\<lparr>msg_channel_id := None\<rparr> = with_data_from_buffer payload"
    by (simp add: with_data_from_buffer_def with_data_def message_default_def)
  have sent: "send_client_message to_vec ?cl (CHello ENDPOINT_PROTOCOL_VERSION SERIALIZATION_FORMATS) =
      (with_conn_state ?cl s1, Done (Inr ()) :: (('io, 'j) proxy_error + unit) outcome)"
    by (simp add: send_client_message_def serialize_def assms(1,2) env cl base_send_def)
  have "receive_message_with_data (with_conn_state ?cl s1) =
      receive_message_with_data (with_conn_state ?cl s2)"
    using assms(3) by (intro receive_after_skips) (simp add: cl)
  also have "\<dots> = Some (with_conn_state ?cl s3, Done (Inr (data, ?c)))"
    by (subst receive_message_with_data.simps) (simp add: cl assms(4,5))
  finally have recv: "receive_message_with_data (with_conn_state ?cl s1) =
      Some (with_conn_state ?cl s3, Done (Inr (data, ?c)) ::
        (('io, 'j) proxy_error + 'r reader \<times> u32 option) outcome)" .
  have "dom (hm_get (epc_read_buffer_map (with_conn_state ?cl s3))) \<subseteq> {None}"
    by (auto simp: cl rust_simps split: if_splits)
  from receive_server_first [OF recv _ this, of read]
  show ?thesis
    by (simp add: client_new_def client_init_def sent cl split: option.split)
qed

theorem handshake_outcome_witness:
  "client_new (\<lambda>_. Inr [] :: unit + u8 list) (\<lambda>d _. (d, Inr [] :: unit + u8 list))
     (scripted 1 [message_default, with_data_from_buffer [1]] :: (_, unit, unit) connection) ''e'' =
   Some (Panic ''BUG: the default channel is not present in the read buffer map'')"
proof -
  let ?base = "scripted 1 [message_default, with_data_from_buffer [1]] :: (_, unit, unit) connection"
  let ?hello = "with_data_from_buffer [] :: (unit, unit) message"
  have s: "conn_send ?base (conn_state ?base) ?hello =
      (([?hello], [message_default, with_data_from_buffer [1]]), Done (Inr ()))"
    by (simp add: scripted_def connection_default_def)
  have sk: "skips ?base ([?hello], [message_default, with_data_from_buffer [1]]) ([?hello], [with_data_from_buffer [1]])"
    by (rule skips.more [where m = message_default, OF _ _ skips.none])
       (simp_all add: scripted_def connection_default_def, simp add: message_default_def)
  have r: "conn_receive ?base ([?hello], [with_data_from_buffer [1]]) = (([?hello], []), Done (Inr (with_data_from_buffer [1])))"
    by (simp add: scripted_def connection_default_def)
  have d: "msg_data (with_data_from_buffer [1] :: (unit, unit) message) = Some (Cursor [1])"
    by (simp add: proxy_eval)
  show ?thesis
    by (subst handshake_outcome [OF refl s sk r d]) (simp add: proxy_eval)
qed

text \<open>The endpoint protocol cannot be created. The constructor makes a weak reference to the
  object and then asks for exclusive access to it, which is refused because of that weak reference;
  the constructor panics for every base connection.\<close>

lemma endpoint_protocol_new_panics:
  "endpoint_protocol_new base = Panic ''called `Option::unwrap()` on a `None` value''"
  by (simp add: endpoint_protocol_new_def arc_get_mut_def arc_downgrade_def arc_new_def)

text \<open>One client per protocol object. After any attempt to create a client, successful or not,
  every further attempt is refused because the base connection is gone, also when the first attempt
  failed before using it.\<close>

lemma one_client_per_protocol:
  assumes "endpoint_new_client to_vec read alive ep = (ep', r)"
  shows "endpoint_new_client to_vec read alive' ep' =
     (ep', Some (Done (Inl (TakenBefore MoreThanOneClient))))"
proof -
  have "epp_base_connection ep' = None"
    using assms by (auto simp: endpoint_new_client_def Let_def split: option.splits if_splits)
  then show ?thesis
    by (simp add: endpoint_new_client_def)
qed

text \<open>Version and format negotiation. The reply to the hello is accepted exactly when it is a
  hello of the own version that names an offered format; any other message is reported by its name,
  another version is reported before the format is looked at.\<close>

lemma negotiation_exact:
  "(check_hello m = (Inr f :: ('io, 'j) proxy_error + _) \<longleftrightarrow>
      m = SHello ENDPOINT_PROTOCOL_VERSION (serialization_format_name f) \<and>
      serialization_format_name f \<in> set SERIALIZATION_FORMATS) \<and>
   (server_message_name m \<noteq> ''Hello'' \<longrightarrow>
      check_hello m = (Inl (WrongMessage [''Hello''] (server_message_name m)) :: ('io, 'j) proxy_error + _)) \<and>
   (v \<noteq> ENDPOINT_PROTOCOL_VERSION \<longrightarrow>
      check_hello (SHello v fmt) = (Inl (WrongVersion ENDPOINT_PROTOCOL_VERSION v) :: ('io, 'j) proxy_error + _))"
  by (cases m; cases f)
     (auto simp: check_hello_def serialization_format_try_from_def serialization_format_name_def
       SERIALIZATION_FORMATS_def)

text \<open>What the capabilities announce and the methods do not provide.\<close>

lemma advertised_but_unimplemented:
  "cap_server (endpoint_protocol_capabilities ep) \<and> endpoint_new_server ep addr = Panic ''not implemented'' \<and>
    snd (conn_new_channel (endpoint_client_connection protocol cl) cl) = Panic ''not implemented''"
  by (simp add: endpoint_protocol_capabilities_def endpoint_new_server_def endpoint_client_connection_def
      unimplemented_def)

text \<open>The text of the error about the serialization format does not tell the formats expected.\<close>

lemma format_error_hides_expected:
  "proxy_error_fmt io_fmt json_fmt (UnknownSerializationFormat expected received) =
   proxy_error_fmt io_fmt json_fmt (UnknownSerializationFormat expected' received)"
  by (simp add: proxy_error_fmt_def)

section \<open>When the receive loop ends\<close>

text \<open>A state in which the base connection delivers something else than a message without data.\<close>

definition delivers :: "('s, 'r, 'sock) connection \<Rightarrow> 's \<Rightarrow> bool" where
  "delivers conn s \<longleftrightarrow>
     (case conn_receive conn s of (s', Done (Inr m)) \<Rightarrow> msg_data m \<noteq> None | _ \<Rightarrow> True)"

lemma skips_cong:
  assumes "conn_receive conn = conn_receive conn'"
  shows "skips conn s s' \<longleftrightarrow> skips conn' s s'"
proof
  show "skips conn s s' \<Longrightarrow> skips conn' s s'"
    by (induction rule: skips.induct) (auto intro: skips.intros simp: assms)
  show "skips conn' s s' \<Longrightarrow> skips conn s s'"
    by (induction rule: skips.induct) (auto intro: skips.intros simp: assms)
qed

lemma with_conn_state_loop [simp]:
  "skips (epc_base_connection (with_conn_state cl t)) s s' \<longleftrightarrow> skips (epc_base_connection cl) s s'"
  "delivers (epc_base_connection (with_conn_state cl t)) s \<longleftrightarrow> delivers (epc_base_connection cl) s"
  by (rule skips_cong) (simp_all add: delivers_def)

lemma receive_delivers:
  assumes "delivers (epc_base_connection cl) (conn_state (epc_base_connection cl))"
  shows "\<exists>r. receive_message_with_data cl = Some r"
  using assms
  by (subst receive_message_with_data.simps)
     (auto simp: delivers_def split: prod.splits outcome.splits sum.splits option.splits)

lemma receive_returned:
  fixes r :: "('s, 'r, 'sock) endpoint_client \<times> (('io, 'j) proxy_error + 'r reader \<times> u32 option) outcome"
  assumes "receive_message_with_data cl = Some r"
  shows "\<exists>s'. skips (epc_base_connection cl) (conn_state (epc_base_connection cl)) s' \<and>
     delivers (epc_base_connection cl) s'"
  using _ assms
proof (rule receive_message_with_data.raw_induct [where P = "\<lambda>cl _. \<exists>s'.
    skips (epc_base_connection cl) (conn_state (epc_base_connection cl)) s' \<and> delivers (epc_base_connection cl) s'"],
    goal_cases)
  case (1 recv cl x)
  show ?case
  proof (cases "delivers (epc_base_connection cl) (conn_state (epc_base_connection cl))")
    case True
    then show ?thesis by (intro exI conjI) (rule skips.none)
  next
    case False
    then obtain s m where m: "conn_receive (epc_base_connection cl) (conn_state (epc_base_connection cl)) = (s, Done (Inr m))"
        "msg_data m = None"
      by (auto simp: delivers_def split: prod.splits outcome.splits sum.splits)
    then have "recv (with_conn_state cl s) = Some x" using 1(2) by simp
    from 1(1) [OF this] obtain s' where "skips (epc_base_connection cl) s s'" "delivers (epc_base_connection cl) s'"
      by auto
    then show ?thesis by (intro exI conjI) (rule skips.more [OF m])
  qed
qed

text \<open>C23: When receiving ends. The loop that waits for a message with data returns exactly if the base
  connection, after finitely many messages without data, delivers a message with data, an error or a
  panic; otherwise it waits forever.\<close>

theorem receive_ends_on_delivery:
  fixes cl :: "('s, 'r, 'sock) endpoint_client"
  shows "(\<exists>r :: _ \<times> (('io, 'j) proxy_error + 'r reader \<times> u32 option) outcome.
      receive_message_with_data cl = Some r) \<longleftrightarrow>
    (\<exists>s'. skips (epc_base_connection cl) (conn_state (epc_base_connection cl)) s' \<and>
      delivers (epc_base_connection cl) s')"
proof
  assume "\<exists>s'. skips (epc_base_connection cl) (conn_state (epc_base_connection cl)) s' \<and>
      delivers (epc_base_connection cl) s'"
  then obtain s' where s': "skips (epc_base_connection cl) (conn_state (epc_base_connection cl)) s'"
      "delivers (epc_base_connection cl) s'" by blast
  have "with_conn_state cl (conn_state (epc_base_connection cl)) = cl"
    by (simp add: with_conn_state_def)
  then have "receive_message_with_data cl =
      (receive_message_with_data (with_conn_state cl s') ::
        (_ \<times> (('io, 'j) proxy_error + 'r reader \<times> u32 option) outcome) option)"
    using receive_after_skips [OF s'(1)] by simp
  then show "\<exists>r :: _ \<times> (('io, 'j) proxy_error + 'r reader \<times> u32 option) outcome.
      receive_message_with_data cl = Some r"
    using receive_delivers [of "with_conn_state cl s'"] s'(2) by simp
qed (auto dest: receive_returned)

end
