(* ===== verification/Connections.thy ===== *)
theory Connections
  imports Rust_Std
begin

text \<open>
  \<^verbatim>\<open>src/src/state.rs\<close>: the table of external connections, with ids of 64 bits. The socket and
  handle types come from other crates and are type variables. The lock around the global table
  makes each registration one step; \<^verbatim>\<open>register_connection\<close> and \<^verbatim>\<open>register_connectionless\<close> first convert
  what they are given into a \<open>protocol_handle\<close>. The file is not a module of the library crate at
  present.
\<close>

type_synonym connection_id = u64

datatype ('tcp, 'udp, 'http, 'ssh, 'ws) protocol_handle =
    RawTcp 'tcp socket_addr
  | RawUdp 'udp
  | Http 'http socket_addr
  | Ssh 'ssh socket_addr
  | Websocket 'ws socket_addr

record 'h app_connection =
  external_connection :: 'h
  application_state :: "u8 list"
  application_sockets :: "(string, 'h) hash_map"

definition app_connection_new :: "'h \<Rightarrow> 'h app_connection" where
  "app_connection_new h =
     \<lparr>external_connection = h, application_state = [], application_sockets = []\<rparr>"

record 'h connection_map =
  next_id :: connection_id
  connections :: "(connection_id, 'h app_connection) hash_map"

definition connection_map_new :: "'h connection_map" where
  "connection_map_new = \<lparr>next_id = 0, connections = []\<rparr>"

definition checked_add_u64 :: "u64 \<Rightarrow> u64 \<Rightarrow> u64 option" where
  "checked_add_u64 a b = (if unat a + unat b < 2 ^ 64 then Some (a + b) else None)"

definition connection_map_register ::
    "'h connection_map \<Rightarrow> 'h \<Rightarrow> 'h connection_map \<times> connection_id outcome" where
  "connection_map_register cm h =
     (let cid = next_id cm
      in case checked_add_u64 cid 1 of
           None \<Rightarrow> (cm, Panic ''called `Option::unwrap()` on a `None` value'')
         | Some n \<Rightarrow>
             (cm\<lparr>next_id := n, connections := hm_insert cid (app_connection_new h) (connections cm)\<rparr>,
              Done cid))"

text \<open>The conversions into a handle, one per \<^verbatim>\<open>impl From\<close>, and the two public functions.\<close>

definition handle_from_tcp :: "'tcp \<times> socket_addr \<Rightarrow> ('tcp, 'udp, 'http, 'ssh, 'ws) protocol_handle" where
  "handle_from_tcp x = RawTcp (fst x) (snd x)"

definition handle_from_udp :: "'udp \<Rightarrow> ('tcp, 'udp, 'http, 'ssh, 'ws) protocol_handle" where
  "handle_from_udp x = RawUdp x"

definition handle_from_http :: "'http \<times> socket_addr \<Rightarrow> ('tcp, 'udp, 'http, 'ssh, 'ws) protocol_handle" where
  "handle_from_http x = Http (fst x) (snd x)"

definition handle_from_ssh :: "'ssh \<times> socket_addr \<Rightarrow> ('tcp, 'udp, 'http, 'ssh, 'ws) protocol_handle" where
  "handle_from_ssh x = Ssh (fst x) (snd x)"

definition handle_from_websocket :: "'ws \<times> socket_addr \<Rightarrow> ('tcp, 'udp, 'http, 'ssh, 'ws) protocol_handle" where
  "handle_from_websocket x = Websocket (fst x) (snd x)"

text \<open>\<^verbatim>\<open>register\<close>: one registration in the global table, under its lock.\<close>

definition register_handle :: "'h connection_map \<Rightarrow> 'h \<Rightarrow> 'h connection_map \<times> connection_id outcome" where
  "register_handle g_connections handle = connection_map_register g_connections handle"

definition register_connection ::
    "('a \<times> socket_addr \<Rightarrow> 'h) \<Rightarrow> 'h connection_map \<Rightarrow> 'a \<Rightarrow> socket_addr \<Rightarrow>
     'h connection_map \<times> connection_id outcome" where
  "register_connection into cm handle remote_addr =
     register_handle cm (into (handle, remote_addr))"

definition register_connectionless ::
    "('a \<Rightarrow> 'h) \<Rightarrow> 'h connection_map \<Rightarrow> 'a \<Rightarrow> 'h connection_map \<times> connection_id outcome" where
  "register_connectionless into cm handle = register_handle cm (into handle)"

section \<open>Invariant\<close>

text \<open>Ids in use are below the next id.\<close>

definition connection_map_wf :: "'h connection_map \<Rightarrow> bool" where
  "connection_map_wf cm \<longleftrightarrow>
     hm_wf (connections cm) \<and> (\<forall>cid. hm_get (connections cm) cid \<noteq> None \<longrightarrow> cid < next_id cm)"

lemma connection_map_wf_new: "connection_map_wf connection_map_new"
  by (simp add: connection_map_wf_def connection_map_new_def rust_simps)

lemma checked_add_Some:
  "checked_add_u64 a 1 = Some b \<longleftrightarrow> unat a + 1 < 2 ^ 64 \<and> b = a + 1"
  by (auto simp: checked_add_u64_def)

lemma unat_succ: "unat (a :: u64) + 1 < 2 ^ 64 \<Longrightarrow> unat (a + 1) = unat a + 1"
  by (simp add: unat_word_ariths)

lemma register_step:
  assumes "connection_map_wf cm" and "connection_map_register cm h = (cm', Done cid)"
  shows "connection_map_wf cm'" and "cid = next_id cm" and "unat (next_id cm') = unat (next_id cm) + 1"
    and "hm_get (connections cm) cid = None"
    and "hm_get (connections cm') = (hm_get (connections cm))(cid \<mapsto> app_connection_new h)"
proof -
  have r: "unat (next_id cm) + 1 < 2 ^ 64" "cid = next_id cm"
      "cm' = cm\<lparr>next_id := next_id cm + 1,
                connections := hm_insert (next_id cm) (app_connection_new h) (connections cm)\<rparr>"
    using assms(2) by (auto simp: connection_map_register_def checked_add_Some Let_def split: option.splits)
  show "cid = next_id cm" by (rule r(2))
  show n: "unat (next_id cm') = unat (next_id cm) + 1"
    using r(1) by (simp add: r(3) unat_succ)
  show "hm_get (connections cm) cid = None"
    using assms(1) r(2) by (auto simp: connection_map_wf_def)
  show get: "hm_get (connections cm') = (hm_get (connections cm))(cid \<mapsto> app_connection_new h)"
    by (simp add: r(2,3) rust_simps fun_eq_iff)
  have "i < next_id cm'" if "hm_get (connections cm') i \<noteq> None" for i
  proof -
    have "i \<le> next_id cm"
      using that assms(1) by (auto simp: get r(2) connection_map_wf_def split: if_splits)
    then show ?thesis using n by (simp add: word_less_nat_alt word_le_nat_alt)
  qed
  then show "connection_map_wf cm'"
    using assms(1) by (simp add: connection_map_wf_def r(3) wf_intros)
qed

lemma register_succeeds:
  "unat (next_id cm) + 1 < 2 ^ 64 \<Longrightarrow> \<exists>cm' cid. connection_map_register cm h = (cm', Done cid)"
  by (simp add: connection_map_register_def checked_add_u64_def Let_def)

section \<open>Sequences of registrations\<close>

fun register_handles ::
    "'h connection_map \<Rightarrow> 'h list \<Rightarrow> 'h connection_map \<times> connection_id list outcome" where
  "register_handles cm [] = (cm, Done [])"
| "register_handles cm (h # hs) =
     (case connection_map_register cm h of
        (cm', Panic p) \<Rightarrow> (cm', Panic p)
      | (cm', Done cid) \<Rightarrow>
          (case register_handles cm' hs of
             (cm'', Panic p) \<Rightarrow> (cm'', Panic p)
           | (cm'', Done ids) \<Rightarrow> (cm'', Done (cid # ids))))"

lemma register_handles_ids:
  "connection_map_wf cm \<Longrightarrow> unat (next_id cm) + length hs < 2 ^ 64 \<Longrightarrow>
     \<exists>cm'. register_handles cm hs =
        (cm', Done (map (\<lambda>k. next_id cm + of_nat k) [0..<length hs])) \<and>
       connection_map_wf cm' \<and>
       (\<forall>cid e. hm_get (connections cm) cid = Some e \<longrightarrow> hm_get (connections cm') cid = Some e) \<and>
       (\<forall>k < length hs. hm_get (connections cm') (next_id cm + of_nat k) =
          Some (app_connection_new (hs ! k)))"
proof (induction hs arbitrary: cm)
  case Nil
  then show ?case by simp
next
  case (Cons h hs)
  obtain cm1 cid where r: "connection_map_register cm h = (cm1, Done cid)"
    using register_succeeds [of cm h] Cons.prems(2) by auto
  note step = register_step [OF Cons.prems(1) r]
  have n1: "next_id cm1 = next_id cm + 1"
    using step(3) Cons.prems(2) by (simp add: word_unat_eq_iff unat_succ)
  obtain cm' where r': "register_handles cm1 hs =
        (cm', Done (map (\<lambda>k. next_id cm1 + of_nat k) [0..<length hs]))" "connection_map_wf cm'"
      "\<And>i e. hm_get (connections cm1) i = Some e \<Longrightarrow> hm_get (connections cm') i = Some e"
      "\<And>k. k < length hs \<Longrightarrow> hm_get (connections cm') (next_id cm1 + of_nat k) =
          Some (app_connection_new (hs ! k))"
    using Cons.IH [OF step(1)] step(3) Cons.prems(2) by auto
  have ids: "next_id cm # map (\<lambda>k. next_id cm1 + of_nat k) [0..<length hs] =
      map (\<lambda>k. next_id cm + of_nat k) [0..<length (h # hs)]"
    by (simp add: n1 upt_conv_Cons map_Suc_upt [symmetric] comp_def add.assoc del: upt_Suc)
  have "hm_get (connections cm') (next_id cm + of_nat k) = Some (app_connection_new ((h # hs) ! k))"
    if "k < length (h # hs)" for k
  proof (cases k)
    case 0
    then show ?thesis using r'(3) [of cid] step(2,5) by simp
  next
    case (Suc j)
    then show ?thesis using r'(4) [of j] that by (simp add: n1 add.assoc)
  qed
  moreover have "hm_get (connections cm') i = Some e" if "hm_get (connections cm) i = Some e" for i e
    using r'(3) [of i e] that step(4,5) by (cases "i = cid") simp_all
  ultimately show ?case
    using r r'(1,2) ids step(2) by simp
qed

section \<open>Properties\<close>

text \<open>C36: Connection ids. Registering fewer than \<open>2 ^ 64\<close> connections after each other succeeds, gives
  them pairwise different ids, consecutive from zero, and afterwards every connection is found,
  with empty application state, under its own id.\<close>

theorem connection_ids_are_unique:
  assumes "length hs < 2 ^ 64"
  shows "\<exists>cm ids. register_handles connection_map_new hs = (cm, Done ids) \<and> distinct ids \<and>
     length ids = length hs \<and> connection_map_wf cm \<and>
     (\<forall>k < length hs. ids ! k = of_nat k \<and>
        hm_get (connections cm) (ids ! k) = Some (app_connection_new (hs ! k)))"
proof -
  let ?ids = "map of_nat [0..<length hs] :: u64 list"
  have "inj_on (of_nat :: nat \<Rightarrow> u64) {0..<length hs}"
    using assms by (intro inj_onI) (simp add: word_of_nat_eq_iff take_bit_nat_eq_self)
  then have "distinct ?ids"
    by (simp add: distinct_map)
  then show ?thesis
    using register_handles_ids [OF connection_map_wf_new, of hs] assms
    by (auto simp: connection_map_new_def)
qed

theorem connection_ids_are_unique_witness:
  "\<exists>cm ids. register_handles connection_map_new [''a'', ''b''] = (cm, Done ids) \<and> distinct ids \<and>
     hm_get (connections cm) (ids ! 1) = Some (app_connection_new ''b'')"
proof -
  have "length [''a'', ''b''] < 2 ^ 64" by simp
  then show ?thesis
    using connection_ids_are_unique [of "[''a'', ''b'']"] by fastforce
qed

text \<open>Exhausted ids. Registration panics exactly when the next id is the largest 64-bit number,
  and the table is unchanged then; no id is ever given out twice by wrapping around.\<close>

lemma registration_panics_on_exhaustion:
  "(\<exists>cm' p. connection_map_register cm h = (cm', Panic p)) = (next_id cm = - 1) \<and>
   (next_id cm = - 1 \<longrightarrow> fst (connection_map_register cm h) = cm)"
proof -
  have "unat (next_id cm) + 1 < 2 ^ 64 \<longleftrightarrow> next_id cm \<noteq> - 1"
  proof -
    have "unat (next_id cm) < 2 ^ 64"
      using unsigned_less [of "next_id cm"] by simp
    moreover have "next_id cm = - 1 \<longleftrightarrow> unat (next_id cm) = 2 ^ 64 - 1"
      by (simp add: word_unat_eq_iff unsigned_minus_1_eq_mask mask_eq_exp_minus_1)
    ultimately show ?thesis by linarith
  qed
  then show ?thesis
    by (auto simp: connection_map_register_def checked_add_u64_def Let_def)
qed

end
