(* ===== verification/Main_Program.thy ===== *)
theory Main_Program
  imports Service_Selection Kubernetes Protocol
begin

text \<open>
  \<^verbatim>\<open>src/src/bin/main.rs\<close>: validation of the command line, the asynchronous runtime, and the set-up
  of the protocol registry and the discovery tasks. The options that the program declares are a list
  of \<open>cli_arg\<close>, with the builder calls of the source as fields; what \<^verbatim>\<open>clap\<close> makes of the command line
  is the record \<open>arg_matches\<close>, and \<open>clap_accepts\<close> is what it documents about it. The cargo features
  are the record \<open>features\<close>. The runtime builder of \<^verbatim>\<open>tokio\<close>, the parser of URLs and the Kubernetes
  configuration are arguments. Help texts and logging are not modelled. \<^verbatim>\<open>handover::start\<close> has an
  empty body, and the functions for SSH and websockets only test an option.
\<close>

record arg_matches =
  value_of :: "string \<Rightarrow> string option"
  is_present :: "string \<Rightarrow> bool"

record features =
  feature_kubernetes :: bool
  feature_http :: bool
  feature_ssh :: bool
  feature_websockets :: bool
  feature_handover :: bool

definition default_features :: features where
  "default_features =
     \<lparr>feature_kubernetes = True, feature_http = True, feature_ssh = False,
      feature_websockets = False, feature_handover = True\<rparr>"

definition arg_is_number :: "string \<Rightarrow> string + unit" where
  "arg_is_number x =
     (if find (\<lambda>c. \<not> is_digit c) x = None then Inr () else Inl ''must be a number'')"

section \<open>The command line\<close>

record cli_arg =
  arg_id :: string
  arg_long :: "string option"
  arg_short :: "char option"
  takes_value :: bool
  value_name :: "string option"
  validator_os :: "(string \<Rightarrow> string + unit) option"
  conflicts_with :: "string list"
  arg_requires :: "string list"

text \<open>\<^verbatim>\<open>Arg::new(name).long(name)\<close>, which every option starts with.\<close>

definition long_arg :: "string \<Rightarrow> cli_arg" where
  "long_arg name =
     \<lparr>arg_id = name, arg_long = Some name, arg_short = None, takes_value = False, value_name = None,
      validator_os = None, conflicts_with = [], arg_requires = []\<rparr>"

definition parse_command_line :: "features \<Rightarrow> cli_arg list" where
  "parse_command_line feats =
     [(long_arg ''worker-threads'')\<lparr>takes_value := True, value_name := Some ''COUNT'',
        validator_os := Some arg_is_number\<rparr>] @
     (if feature_kubernetes feats
      then [(long_arg ''k8s-namespace'')\<lparr>takes_value := True, value_name := Some ''NAMESPACE''\<rparr>,
            (long_arg ''k8s-url'')\<lparr>takes_value := True, value_name := Some ''URL''\<rparr>,
            (long_arg ''k8s-from-kubeconfig'')\<lparr>arg_short := Some CHR ''k'', conflicts_with := [''k8s-url'']\<rparr>,
            (long_arg ''k8s-context'')\<lparr>takes_value := True, value_name := Some ''CONTEXT'',
               arg_requires := [''k8s-context'']\<rparr>]
      else []) @
     (if feature_http feats then [long_arg ''accept-http''] else []) @
     (if feature_ssh feats then [long_arg ''accept-ssh''] else []) @
     (if feature_websockets feats then [long_arg ''accept-websockets''] else []) @
     (if feature_handover feats
      then [(long_arg ''handover-socket'')\<lparr>takes_value := True, value_name := Some ''ADDRESS''\<rparr>]
      else [])"

text \<open>What \<^verbatim>\<open>clap\<close> guarantees of the matches it returns for declared options.\<close>

definition clap_accepts :: "cli_arg list \<Rightarrow> arg_matches \<Rightarrow> bool" where
  "clap_accepts opts am \<longleftrightarrow>
     (\<forall>n. is_present am n \<longrightarrow> n \<in> arg_id ` set opts) \<and>
     list_all (\<lambda>a. value_of am (arg_id a) \<noteq> None \<longleftrightarrow> takes_value a \<and> is_present am (arg_id a)) opts \<and>
     list_all (\<lambda>a. case (validator_os a, value_of am (arg_id a)) of
         (Some v, Some s) \<Rightarrow> v s = Inr () | _ \<Rightarrow> True) opts \<and>
     list_all (\<lambda>a. is_present am (arg_id a) \<longrightarrow>
         list_all (\<lambda>n. \<not> is_present am n) (conflicts_with a) \<and>
         list_all (is_present am) (arg_requires a)) opts"

section \<open>The runtime\<close>

datatype ('io, 'e) main_error =
    RuntimeError 'io
  | ProtocolError protocol_error
  | BadUrl 'e
  | KubernetesError "'e new_error"
  | TaskError register_error

definition init_executor ::
    "'b \<Rightarrow> (usize \<Rightarrow> 'b \<Rightarrow> 'b outcome) \<Rightarrow> ('b \<Rightarrow> 'io + 'rt) \<Rightarrow> arg_matches \<Rightarrow> ('io + 'rt) outcome" where
  "init_executor builder worker_threads build args =
     (case value_of args ''worker-threads'' of
        None \<Rightarrow> Done (build builder)
      | Some s \<Rightarrow>
          (case parse_usize s of
             Inl _ \<Rightarrow> Panic ''called `Result::unwrap()` on an `Err` value''
           | Inr n \<Rightarrow>
               (case worker_threads n builder of
                  Panic p \<Rightarrow> Panic p
                | Done builder' \<Rightarrow> Done (build builder'))))"

section \<open>Set-up\<close>

text \<open>What \<^verbatim>\<open>http::Uri\<close> and \<^verbatim>\<open>kube::Config\<close> provide.\<close>

record ('cfg, 'uri, 'e) kube_env =
  ke_parse_uri :: "string \<Rightarrow> 'e + 'uri"
  ke_from_kubeconfig :: "string option \<Rightarrow> 'e + 'cfg"
  ke_has_scheme :: "'uri \<Rightarrow> bool"
  ke_config_new :: "'uri \<Rightarrow> 'cfg"
  ke_cluster_url :: "'cfg \<Rightarrow> string"

definition register_kubernetes ::
    "features \<Rightarrow> ('cfg, 'uri, 'e) kube_env \<Rightarrow>
     'm \<Rightarrow> ('m, 'c) service_manager \<Rightarrow> arg_matches \<Rightarrow>
     ('io, 'e) main_error + ('m, 'c) service_manager" where
  "register_kubernetes feats env new_metrics sm args =
     (if \<not> feature_kubernetes feats then Inr sm
      else
        let config =
              (if is_present args ''k8s-from-kubeconfig''
               then Inr (Some (KubeConfig (value_of args ''k8s-context'')))
               else (case value_of args ''k8s-url'' of
                       Some url \<Rightarrow>
                         (case ke_parse_uri env url of
                            Inl e \<Rightarrow> Inl (BadUrl e)
                          | Inr uri \<Rightarrow> Inr (Some (Explicit uri)))
                     | None \<Rightarrow> Inr None))
        in (case config of
              Inl e \<Rightarrow> Inl e
            | Inr None \<Rightarrow> Inr sm
            | Inr (Some config) \<Rightarrow>
                (case discovery_new (ke_from_kubeconfig env) (ke_has_scheme env) (ke_config_new env)
                        (ke_cluster_url env) config (value_of args ''k8s-namespace'') of
                   Inl e \<Rightarrow> Inl (KubernetesError e)
                 | Inr discovery \<Rightarrow>
                     (case register_endpoint_discovery new_metrics sm (ked_name discovery) of
                        Inl e \<Rightarrow> Inl (TaskError e)
                      | Inr sm' \<Rightarrow> Inr sm'))))"

definition register_http ::
    "features \<Rightarrow> ('conn, 'server, 'sock) protocol_registry \<Rightarrow> arg_matches \<Rightarrow>
     protocol_error + ('conn, 'server, 'sock) protocol_registry" where
  "register_http feats reg args =
     (if feature_http feats \<and> is_present args ''accept-http''
      then protocol_register reg http_protocol_new else Inr reg)"

definition register_ssh ::
    "features \<Rightarrow> ('conn, 'server, 'sock) protocol_registry \<Rightarrow> arg_matches \<Rightarrow>
     protocol_error + ('conn, 'server, 'sock) protocol_registry" where
  "register_ssh feats reg args =
     (if feature_ssh feats \<and> is_present args ''accept-ssh'' then Inr reg else Inr reg)"

definition register_websockets ::
    "features \<Rightarrow> ('conn, 'server, 'sock) protocol_registry \<Rightarrow> arg_matches \<Rightarrow>
     protocol_error + ('conn, 'server, 'sock) protocol_registry" where
  "register_websockets feats reg args =
     (if feature_websockets feats \<and> is_present args ''accept-websockets'' then Inr reg else Inr reg)"

definition handover_start :: "string \<Rightarrow> unit" where
  "handover_start address = ()"

text \<open>The result says whether the warning is logged; there is no other effect, because
  \<^verbatim>\<open>handover::start\<close> does nothing.\<close>

definition init_handover :: "features \<Rightarrow> arg_matches \<Rightarrow> bool" where
  "init_handover feats args =
     (if feature_handover feats
      then (case value_of args ''handover-socket'' of
              Some socket \<Rightarrow> let _ = handover_start socket in False
            | None \<Rightarrow> True)
      else False)"

text \<open>The asynchronous block of \<^verbatim>\<open>run\<close>. The source drops the registry and the manager when the block
  ends; the model returns them.\<close>

definition run_block ::
    "features \<Rightarrow> ('cfg, 'uri, 'e) kube_env \<Rightarrow>
     'm \<Rightarrow> arg_matches \<Rightarrow>
     ('io, 'e) main_error + ('conn, 'server, 'sock) protocol_registry \<times> ('m, 'c) service_manager" where
  "run_block feats env new_metrics args =
     (case register_http feats protocol_registry_new args of
        Inl e \<Rightarrow> Inl (ProtocolError e)
      | Inr reg1 \<Rightarrow>
          (case register_ssh feats reg1 args of
             Inl e \<Rightarrow> Inl (ProtocolError e)
           | Inr reg2 \<Rightarrow>
               (case register_websockets feats reg2 args of
                  Inl e \<Rightarrow> Inl (ProtocolError e)
                | Inr reg3 \<Rightarrow>
                    (case register_kubernetes feats env new_metrics service_manager_new args of
                       Inl e \<Rightarrow> Inl e
                     | Inr sm \<Rightarrow> let _ = init_handover feats args in Inr (reg3, sm)))))"

definition main_run ::
    "features \<Rightarrow> 'b \<Rightarrow> (usize \<Rightarrow> 'b \<Rightarrow> 'b outcome) \<Rightarrow> ('b \<Rightarrow> 'io + 'rt) \<Rightarrow> ('cfg, 'uri, 'e) kube_env \<Rightarrow>
     'm \<Rightarrow> arg_matches \<Rightarrow>
     (('io, 'e) main_error + ('conn, 'server, 'sock) protocol_registry \<times> ('m, 'c) service_manager) outcome" where
  "main_run feats builder worker_threads build env new_metrics args =
     (case init_executor builder worker_threads build args of
        Panic p \<Rightarrow> Panic p
      | Done (Inl e) \<Rightarrow> Done (Inl (RuntimeError e))
      | Done (Inr runtime) \<Rightarrow> Done (run_block feats env new_metrics args))"

text \<open>The exit code of the process; a panic in the main thread is code 101.\<close>

definition exit_code :: "('e + 'a) outcome \<Rightarrow> nat" where
  "exit_code r = (case r of Panic _ \<Rightarrow> 101 | Done (Inl _) \<Rightarrow> 1 | Done (Inr _) \<Rightarrow> 0)"

text \<open>\<^verbatim>\<open>main\<close>: \<open>get_matches\<close> stands for \<^verbatim>\<open>clap\<close>, which ends the process itself, with a code of its
  own, when it does not accept the command line.\<close>

definition main_program ::
    "features \<Rightarrow> (cli_arg list \<Rightarrow> string list \<Rightarrow> nat + arg_matches) \<Rightarrow>
     (arg_matches \<Rightarrow> ('e + 'a) outcome) \<Rightarrow> string list \<Rightarrow> nat" where
  "main_program feats get_matches run argv =
     (case get_matches (parse_command_line feats) argv of
        Inl code \<Rightarrow> code
      | Inr args \<Rightarrow> exit_code (run args))"

section \<open>Properties\<close>

text \<open>Two matches that do not differ in what can be asked about the declared options.\<close>

definition agree_on :: "cli_arg list \<Rightarrow> arg_matches \<Rightarrow> arg_matches \<Rightarrow> bool" where
  "agree_on opts am am' \<longleftrightarrow>
     list_all (\<lambda>a. is_present am (arg_id a) = is_present am' (arg_id a) \<and>
       (takes_value a \<longrightarrow> value_of am (arg_id a) = value_of am' (arg_id a))) opts"

lemma option_ids:
  "map arg_id (parse_command_line feats) =
     ''worker-threads'' #
     (if feature_kubernetes feats
      then [''k8s-namespace'', ''k8s-url'', ''k8s-from-kubeconfig'', ''k8s-context''] else []) @
     (if feature_http feats then [''accept-http''] else []) @
     (if feature_ssh feats then [''accept-ssh''] else []) @
     (if feature_websockets feats then [''accept-websockets''] else []) @
     (if feature_handover feats then [''handover-socket''] else [])"
  by (simp add: parse_command_line_def long_arg_def)

lemma option_ids_set: "arg_id ` set (parse_command_line feats) = set (map arg_id (parse_command_line feats))"
  by simp

lemma agree_on_options:
  assumes "agree_on (parse_command_line feats) am am'"
  shows "value_of am ''worker-threads'' = value_of am' ''worker-threads''"
    and "feature_kubernetes feats \<Longrightarrow> is_present am ''k8s-from-kubeconfig'' = is_present am' ''k8s-from-kubeconfig'' \<and>
      value_of am ''k8s-url'' = value_of am' ''k8s-url'' \<and>
      value_of am ''k8s-context'' = value_of am' ''k8s-context'' \<and>
      value_of am ''k8s-namespace'' = value_of am' ''k8s-namespace''"
    and "feature_http feats \<Longrightarrow> is_present am ''accept-http'' = is_present am' ''accept-http''"
    and "feature_handover feats \<Longrightarrow> value_of am ''handover-socket'' = value_of am' ''handover-socket''"
  using assms by (simp_all add: agree_on_def parse_command_line_def long_arg_def)

lemma agree_on_registration:
  assumes "agree_on (parse_command_line feats) am am'"
  shows "register_http feats reg am = register_http feats reg am'"
    and "register_kubernetes feats env m sm am = register_kubernetes feats env m sm am'"
  using agree_on_options(2,3) [OF assms] by (auto simp: register_http_def register_kubernetes_def)

lemma agree_on_runs:
  assumes "agree_on (parse_command_line feats) am am'"
  shows "init_executor builder worker_threads build am = init_executor builder worker_threads build am'"
    and "run_block feats env m am = run_block feats env m am'"
    and "init_handover feats am = init_handover feats am'"
proof -
  note same = agree_on_options [OF assms]
  show "init_executor builder worker_threads build am = init_executor builder worker_threads build am'"
    by (simp add: init_executor_def same(1))
  show "run_block feats env m am = run_block feats env m am'"
    by (simp add: run_block_def agree_on_registration [OF assms] register_ssh_def register_websockets_def
        split: sum.split)
  show "init_handover feats am = init_handover feats am'"
    using same(4) by (auto simp: init_handover_def)
qed

text \<open>C38: The command line is well typed. For every choice of features the declared options have
  distinct names, conflicts and requirements refer to declared options, and the program asks only for
  declared options and for values only of options that take one: it cannot tell two command lines apart
  that agree on the declared options.\<close>

theorem options_are_well_typed:
  assumes "agree_on (parse_command_line feats) am am'"
  shows "distinct (map arg_id (parse_command_line feats)) \<and>
    list_all (\<lambda>a. set (conflicts_with a @ arg_requires a) \<subseteq> arg_id ` set (parse_command_line feats))
      (parse_command_line feats) \<and>
    main_run feats builder worker_threads build env m am = main_run feats builder worker_threads build env m am' \<and>
    init_handover feats am = init_handover feats am'"
proof -
  have "distinct (map arg_id (parse_command_line feats))"
    unfolding option_ids by simp
  moreover have "list_all (\<lambda>a. set (conflicts_with a @ arg_requires a) \<subseteq> arg_id ` set (parse_command_line feats))
      (parse_command_line feats)"
    unfolding option_ids_set option_ids by (simp add: parse_command_line_def long_arg_def)
  ultimately show ?thesis
    by (simp add: main_run_def agree_on_runs [OF assms] split: outcome.split sum.split)
qed

theorem options_are_well_typed_witness:
  "init_handover default_features \<lparr>value_of = [''handover-socket'' \<mapsto> ''/run/p''], is_present = (\<lambda>_. False)\<rparr> =
   init_handover default_features
     \<lparr>value_of = [''handover-socket'' \<mapsto> ''/run/p'', ''accept-ssh'' \<mapsto> ''x''], is_present = (\<lambda>n. n = ''accept-ssh'')\<rparr>"
proof -
  let ?am = "\<lparr>value_of = [''handover-socket'' \<mapsto> ''/run/p''], is_present = (\<lambda>_. False)\<rparr>"
  let ?am' = "\<lparr>value_of = [''handover-socket'' \<mapsto> ''/run/p'', ''accept-ssh'' \<mapsto> ''x''],
      is_present = (\<lambda>n. n = ''accept-ssh'')\<rparr>"
  have "agree_on (parse_command_line default_features) ?am ?am'"
    by (simp add: agree_on_def parse_command_line_def default_features_def long_arg_def)
  from options_are_well_typed [OF this, THEN conjunct2, THEN conjunct2, THEN conjunct2] show ?thesis .
qed

text \<open>A context without a configuration file. Although the option is described as belonging to
  the configuration file, a command line with \<^verbatim>\<open>--k8s-context\<close> and a URL is accepted, because the
  option only requires itself; without \<^verbatim>\<open>--k8s-from-kubeconfig\<close> the context has no effect. What the
  options do exclude is a URL together with the configuration file.\<close>

lemma context_is_ignored_without_kubeconfig:
  assumes "feature_kubernetes feats"
  shows "clap_accepts (parse_command_line feats)
      \<lparr>value_of = [''k8s-url'' \<mapsto> url, ''k8s-context'' \<mapsto> context],
       is_present = (\<lambda>n. n = ''k8s-url'' \<or> n = ''k8s-context'')\<rparr> \<and>
    (\<not> is_present am ''k8s-from-kubeconfig'' \<longrightarrow>
       register_kubernetes feats env m sm (am\<lparr>value_of := (value_of am)(''k8s-context'' := c)\<rparr>) =
       register_kubernetes feats env m sm am) \<and>
    (clap_accepts (parse_command_line feats) am \<longrightarrow>
       \<not> (is_present am ''k8s-from-kubeconfig'' \<and> is_present am ''k8s-url''))"
proof (intro conjI)
  show "clap_accepts (parse_command_line feats)
      \<lparr>value_of = [''k8s-url'' \<mapsto> url, ''k8s-context'' \<mapsto> context],
       is_present = (\<lambda>n. n = ''k8s-url'' \<or> n = ''k8s-context'')\<rparr>"
    unfolding clap_accepts_def option_ids_set option_ids
    using assms by (simp add: parse_command_line_def long_arg_def)
qed (use assms in \<open>auto simp: clap_accepts_def parse_command_line_def long_arg_def register_kubernetes_def\<close>)

lemma arg_is_number_iff: "arg_is_number s = Inr () \<longleftrightarrow> list_all is_digit s"
  by (auto simp: arg_is_number_def find_None_iff list_all_iff)

lemma parse_usize_digits:
  assumes "list_all is_digit s"
  shows "s \<noteq> [] \<Longrightarrow> dec_value 0 s < 2 ^ 64 \<Longrightarrow> parse_usize s = Inr (of_nat (dec_value 0 s))"
    and "s = [] \<or> dec_value 0 s \<ge> 2 ^ 64 \<Longrightarrow> \<exists>e. parse_usize s = Inl e"
proof -
  show "parse_usize s = Inr (of_nat (dec_value 0 s))" if "s \<noteq> []" "dec_value 0 s < 2 ^ 64"
    using parse_uint_digits [OF that(1) assms, of "2 ^ 64 - 1" "dec_value 0 s"] that(2)
    by (simp add: parse_usize_def)
  show "\<exists>e. parse_usize s = Inl e" if "s = [] \<or> dec_value 0 s \<ge> 2 ^ 64"
  proof (cases "s = []")
    case True
    then show ?thesis by (simp add: parse_usize_def parse_uint_def)
  next
    case False
    then have "parse_uint (2 ^ 64 - 1) s \<noteq> Inr n" for n
      using parse_uint_digits [OF False assms, of "2 ^ 64 - 1" n] that by auto
    then obtain e where "parse_uint (2 ^ 64 - 1) s = Inl e"
      by (cases "parse_uint (2 ^ 64 - 1) s") auto
    then show ?thesis by (simp add: parse_usize_def)
  qed
qed

text \<open>C39: The number of worker threads. For an argument that the validator of the command line
  accepts, the runtime is configured with the number it denotes when it is not empty and the number
  fits 64 bits; otherwise the program panics, so the validator lets through arguments the program
  cannot handle.\<close>

theorem worker_threads_argument:
  assumes "value_of args ''worker-threads'' = Some s" and "arg_is_number s = Inr ()"
  shows "init_executor builder worker_threads build args =
     (if s \<noteq> [] \<and> dec_value 0 s < 2 ^ 64
      then (case worker_threads (of_nat (dec_value 0 s)) builder of
              Panic p \<Rightarrow> Panic p
            | Done builder' \<Rightarrow> Done (build builder'))
      else Panic ''called `Result::unwrap()` on an `Err` value'')"
proof -
  have d: "list_all is_digit s" using assms(2) by (simp add: arg_is_number_iff)
  show ?thesis
  proof (cases "s \<noteq> [] \<and> dec_value 0 s < 2 ^ 64")
    case True
    then show ?thesis
      using parse_usize_digits(1) [OF d] assms(1) by (simp add: init_executor_def)
  next
    case False
    then obtain e where "parse_usize s = Inl e"
      using parse_usize_digits(2) [OF d] by fastforce
    with False show ?thesis
      using assms(1) by (auto simp: init_executor_def)
  qed
qed

theorem worker_threads_argument_witness:
  "init_executor (0 :: usize) (\<lambda>n b. Done n) (\<lambda>b. Inr b :: unit + usize)
     \<lparr>value_of = [''worker-threads'' \<mapsto> ''16''], is_present = (\<lambda>_. False)\<rparr> = Done (Inr 16) \<and>
   init_executor (0 :: usize) (\<lambda>n b. Done n) (\<lambda>b. Inr b :: unit + usize)
     \<lparr>value_of = [''worker-threads'' \<mapsto> []], is_present = (\<lambda>_. False)\<rparr> =
     Panic ''called `Result::unwrap()` on an `Err` value''"
proof -
  let ?args = "\<lambda>s. \<lparr>value_of = [''worker-threads'' \<mapsto> s], is_present = (\<lambda>_. False)\<rparr>"
  have v: "value_of (?args s) ''worker-threads'' = Some s" for s by simp
  have n: "arg_is_number ''16'' = Inr ()" "arg_is_number [] = Inr ()"
    by (simp_all add: arg_is_number_def is_digit_def digit_val_def)
  have "dec_value 0 ''16'' = 16" by (simp add: digit_val_def)
  then show ?thesis
    using worker_threads_argument [OF v n(1), of 0 "\<lambda>n b. Done n" "\<lambda>b. Inr b :: unit + usize"]
      worker_threads_argument [OF v n(2), of 0 "\<lambda>n b. Done n" "\<lambda>b. Inr b :: unit + usize"]
    by simp
qed

lemma discovery_new_name:
  "discovery_new from_kubeconfig has_scheme config_new cluster_url config ns = Inr d \<Longrightarrow>
     \<exists>cfg. ked_name d = ''kubernetes@'' @ cluster_url cfg @ ''/'' @
       (case ns of None \<Rightarrow> ''default'' | Some n \<Rightarrow> n)"
  by (auto simp: discovery_new_def Let_def
      split: kubernetes_config.splits sum.splits if_splits option.splits)

lemma register_kubernetes_result:
  assumes "register_kubernetes feats env m service_manager_new args = Inr sm"
  shows "if feature_kubernetes feats \<and>
            (is_present args ''k8s-from-kubeconfig'' \<or> value_of args ''k8s-url'' \<noteq> None)
         then \<exists>cfg. register_endpoint_discovery m service_manager_new
               (''kubernetes@'' @ ke_cluster_url env cfg @ ''/'' @
                (case value_of args ''k8s-namespace'' of None \<Rightarrow> ''default'' | Some n \<Rightarrow> n)) = Inr sm
         else sm = service_manager_new"
  using assms
  by (auto simp: register_kubernetes_def Let_def split: if_splits option.splits sum.splits
      dest!: discovery_new_name)

text \<open>C37: The set-up. When the program starts without an error, exactly the HTTP protocol is registered
  if it was asked for and built in, and nothing otherwise; a discovery task is registered exactly
  if Kubernetes is built in and a configuration was given, under the name of its cluster and
  namespace; and the service manager satisfies its invariant and serves no port yet.\<close>

theorem setup_result:
  fixes build :: "'b \<Rightarrow> 'io + 'rt" and env :: "('cfg, 'uri, 'e) kube_env"
  assumes "main_run feats builder worker_threads build env m args = Done (Inr (reg, sm))"
  shows "protocol_get reg = (if feature_http feats \<and> is_present args ''accept-http''
        then [''http'' \<mapsto> http_protocol_new] else Map.empty) \<and>
     (registered_endpoint_discovery_names sm \<noteq> [] \<longleftrightarrow> feature_kubernetes feats \<and>
        (is_present args ''k8s-from-kubeconfig'' \<or> value_of args ''k8s-url'' \<noteq> None)) \<and>
     (\<forall>name. name \<in> set (registered_endpoint_discovery_names sm) \<longrightarrow>
        (\<exists>cfg. name = ''kubernetes@'' @ ke_cluster_url env cfg @ ''/'' @
           (case value_of args ''k8s-namespace'' of None \<Rightarrow> ''default'' | Some n \<Rightarrow> n))) \<and>
     sm_inv sm \<and> port_service_map sm = []"
proof -
  from assms have h: "register_http feats protocol_registry_new args = Inr reg"
    and k: "register_kubernetes feats env m service_manager_new args = (Inr sm :: ('io, 'e) main_error + _)"
    by (auto simp: main_run_def run_block_def register_ssh_def register_websockets_def
        split: outcome.splits sum.splits)
  have "protocol_get reg = (if feature_http feats \<and> is_present args ''accept-http''
        then [''http'' \<mapsto> http_protocol_new] else Map.empty)"
    using h proto_reg.accepted(2) [OF protocol_registry_wf_new, of http_protocol_new reg]
    by (auto simp: register_http_def protocol_get_def [abs_def] protocol_registry_new_def rust_simps
        http_protocol_new_def protocol_default_def split: if_splits)
  moreover have "sm_inv sm \<and> port_service_map sm = []"
    using register_kubernetes_result [OF k] register_inv(2) sm_inv_new register_frame(1)
    by (fastforce simp: service_manager_new_def split: if_splits)
  moreover have "registered_endpoint_discovery_names sm = [name]"
    if "register_endpoint_discovery m service_manager_new name = Inr sm" for name
    using that by (auto simp: register_endpoint_discovery_def hs_insert_def service_manager_new_def
        split: if_splits)
  ultimately show ?thesis
    using register_kubernetes_result [OF k]
    by (auto simp: service_manager_new_def split: if_splits)
qed

theorem setup_result_witness:
  "\<exists>(reg :: (unit, unit, unit) protocol_registry) (sm :: (nat, unit) service_manager).
     main_run default_features () (\<lambda>n b. Done b) (\<lambda>b. Inr b :: unit + unit)
       \<lparr>ke_parse_uri = (\<lambda>s. Inr s), ke_from_kubeconfig = (\<lambda>_. Inl ()), ke_has_scheme = (\<lambda>_. True),
        ke_config_new = (\<lambda>u. u), ke_cluster_url = (\<lambda>c. c)\<rparr> 0
       \<lparr>value_of = [''k8s-url'' \<mapsto> ''http://k8s''], is_present = (\<lambda>a. a = ''accept-http'')\<rparr> =
       Done (Inr (reg, sm)) \<and>
     protocol_get reg = [''http'' \<mapsto> http_protocol_new] \<and>
     registered_endpoint_discovery_names sm \<noteq> [] \<and> sm_inv sm"
proof -
  let ?env = "\<lparr>ke_parse_uri = (\<lambda>s. Inr s), ke_from_kubeconfig = (\<lambda>_. Inl ()), ke_has_scheme = (\<lambda>_. True),
        ke_config_new = (\<lambda>u. u), ke_cluster_url = (\<lambda>c. c)\<rparr> :: (string, string, unit) kube_env"
  let ?args = "\<lparr>value_of = [''k8s-url'' \<mapsto> ''http://k8s''], is_present = (\<lambda>a. a = ''accept-http'')\<rparr>"
  obtain reg :: "(unit, unit, unit) protocol_registry" and sm :: "(nat, unit) service_manager" where
    r: "main_run default_features () (\<lambda>n b. Done b) (\<lambda>b. Inr b :: unit + unit) ?env 0 ?args = Done (Inr (reg, sm))"
    by (simp add: main_run_def init_executor_def run_block_def register_http_def register_ssh_def
        register_websockets_def register_kubernetes_def default_features_def protocol_register_def
        protocol_registry_new_def rust_simps discovery_new_def register_endpoint_discovery_def
        service_manager_new_def Let_def)
  show ?thesis
    using setup_result [OF r] r by (auto simp: default_features_def)
qed

end
