(* ===== verification/Spec2Isabelle.thy ===== *)
theory Spec2Isabelle
  imports Benchmarks Proxy_Locks Endpoint_Protocol Connections Main_Program
begin

text \<open>
  A verification development for State Proxy (the Rust crate under \<^verbatim>\<open>src/\<close>), a proxy that discovers
  the endpoints of services, serves their ports and forwards external connections to them.

  \<^bold>\<open>The program.\<close> A discovery task (the one of the repository watches the pods of a Kubernetes cluster)
  sends endpoint events through a channel to a listener task of the service manager. The service manager
  keeps, per external port, the service and its endpoints, tells a listener of port events which
  ports to open and close, and selects an endpoint for a new connection. The matchmaker is that
  listener: it starts a protocol server per port and connects new connections to selected
  endpoints. Protocols are kept in a registry; the endpoint protocol multiplexes channels
  over a base connection to an endpoint. The main program validates its arguments and sets these
  parts up.

  \<^bold>\<open>The theories\<close>, in the order in which they build on each other, with the code they model:

  \<^item> \<open>Prelude\<close>: machine integers, panics (\<open>outcome\<close>), hash maps and sets as lists in iteration
    order, and the interfaces as locales: \<open>keyed_store\<close> (interpreted by the hash map),
    \<open>registry\<close> (insert into a vacant entry or fail; interpreted by the registration of discovery
    tasks, of protocols, of protocol clients and of protocol servers) and \<open>simulation\<close> (a step
    that refines an abstract step, iterated; interpreted by the processing of events).
  \<^item> \<open>Rust_Std\<close>: what the sources use of the standard library on strings, integers and addresses
    (\<^verbatim>\<open>split\<close>, \<^verbatim>\<open>parse\<close> of integers and of IP addresses), with round trips.
  \<^item> \<open>Endpoint\<close> (\<^verbatim>\<open>backend/endpoint.rs\<close>): endpoint events, ids and endpoints.
  \<^item> \<open>Service_Manager\<close> (\<^verbatim>\<open>backend/mod.rs\<close>): the state of the manager as a record with the fields of the
    struct, one definition per method and per branch of \<^verbatim>\<open>process_event\<close>, the invariants \<open>sm_wf\<close>
    and \<open>sm_inv\<close> and their preservation.
  \<^item> \<open>Service_Directory\<close>: the abstract directory that the manager refines, the port events as a listener
    replays them, the registration contract, and the reachable states (\<open>sm_step\<close>, \<open>sm_reachable\<close>),
    whose steps are the critical sections of the manager in any interleaving.
  \<^item> \<open>Service_Selection\<close>: the properties of the manager: refinement, port events, the selection of
    endpoints (where it is exact, complete, balanced, and where it misses an endpoint), panics,
    isolation of tasks, registration and the listener task.
  \<^item> \<open>Kubernetes\<close> (\<^verbatim>\<open>kubernetes/mod.rs\<close>): the runtime of the discovery task and its handlers;
    \<open>Kubernetes_Plan\<close>: the reference definition \<open>plan\<close> of the events one watch event stands for,
    and the proof that the handlers send exactly the plan; \<open>Kubernetes_Properties\<close>: annotations,
    restarts, the watch loop and malformed input.
  \<^item> \<open>Discovery_Pipeline\<close>: lemmas on interleaved tasks that join the two components; the properties
    that span them are below.
  \<^item> \<open>Proxy_Pipeline\<close> (\<^verbatim>\<open>register_endpoint_discovery\<close> and \<^verbatim>\<open>listen_for_discovery_events\<close> of
    \<^verbatim>\<open>backend/mod.rs\<close>): all discovery tasks with their bounded channels, the listeners, the write lock on
    the port map and the bounded channel of port events as one system of steps (\<open>pipeline_step\<close>), in which
    the receiver of port events and the owner of the manager may go away at any time
    (\<open>pipeline_environment\<close>). A listener runs the rounds \<open>listen_event\<close> of \<open>listen_for_discovery_events\<close> and waits where the
    code waits. Events take effect in their order, no run is infinite, and the system rests only
    with every listener ended, after all events unless it was disturbed. \<open>Benchmarks\<close> (\<^verbatim>\<open>backend/benchmark.rs\<close>, \<^verbatim>\<open>kubernetes/benchmark.rs\<close>): the wrappers of the
    benchmarks.
  \<^item> \<open>Protocol\<close> (\<^verbatim>\<open>protocol/mod.rs\<close>, \<^verbatim>\<open>http.rs\<close>): registry, capabilities, messages and traits with their
    default methods, the HTTP protocol.
  \<^item> \<open>Channel_Messages\<close>, \<open>Fill_Buffer\<close>, \<open>Endpoint_Protocol\<close> (\<^verbatim>\<open>protocol/proxy/endpoint.rs\<close>): the messages
    with the locale \<open>channel_tagged\<close> for the handling of channel ids, interpreted by both kinds; the
    filling of a read buffer from any stream; the protocol object and its client with the
    handshake.
  \<^item> \<open>Connections\<close> (\<^verbatim>\<open>state.rs\<close>): the table of connections with ids of 64 bits.
  \<^item> \<open>Matchmaking\<close> (\<^verbatim>\<open>matchmaking/\<close>): registration, port events, and the tasks of new connections.
  \<^item> \<open>Lock_Discipline\<close>: tasks that share fair locks and a bounded channel, with panics, and the locale
    \<open>lock_discipline\<close>: if tasks wait only for what ranks above all they hold, no state is stuck before
    it is quiescent, and the steps of running operations are bounded. \<open>Proxy_Locks\<close>
    (\<^verbatim>\<open>backend/mod.rs\<close>, \<^verbatim>\<open>matchmaking/mod.rs\<close>) interprets it by the lock traces of all methods of the manager and
    the matchmaker: deadlock freedom, completion of every operation, and that nothing else happens to
    the port map while an event is processed.
  \<^item> \<open>Main_Program\<close> (\<^verbatim>\<open>bin/main.rs\<close>): the declared options, the runtime, the set-up and the exit code.

  \<^bold>\<open>Modelling.\<close> A method that mutates its receiver takes and returns the state; one that can panic
  returns an \<open>outcome\<close> together with the state reached, since a panic does not undo anything. A
  \<^verbatim>\<open>Result\<close> is a sum with the error on the left. Asynchrony is modelled by what it can change: a
  method that holds its lock until it returns is one step, and interleavings are sequences of steps;
  \<open>Proxy_Locks\<close> refines such a method into the acquisitions, sends and releases it consists of and proves
  that a task that processes an event is alone with the port map; \<open>Proxy_Pipeline\<close> lets such a task wait for
  the lock and for room in the channel of port events.
  The iteration order of a hash map is unspecified in Rust: the theorems hold for
  every order of the lists they start from, and \<open>sm_reachable\<close> contains steps that reorder them.
  Code outside the repository is an argument: the channels of tokio (\<open>send\<close>, of which
  \<open>channel_contract\<close> is assumed where the delivered messages matter), metrics, the cluster
  configuration and watch stream, streams of bytes (\<open>read\<close> with \<open>read_contract\<close>), serde_json, the
  runtime builder and the command line parser (\<open>clap_accepts\<close>). The locks of tokio are modelled as
  they are documented: fair, without poisoning.

  \<^bold>\<open>Loops.\<close> Every loop over a finite input is a structural recursion. \<open>fill_loop\<close> has a termination
  proof: each round reads at least one byte and the loop stops above the maximal size;
  \<open>fill_reads_bounded\<close> counts the rounds. The two receive loops of the endpoint protocol may wait forever
  and are partial functions, \<open>None\<close> meaning that they do not return; \<open>receive_ends_on_delivery\<close> says
  exactly when the inner one returns, and \<open>handshake_outcome\<close> how the handshake ends once the peer has
  answered. The step systems have measures: \<open>system_work\<close> bounds every run of the operations, and the pair of
  \<open>pipeline_work\<close> and \<open>port_work\<close> decreases lexicographically in every step of the pipeline. There is no
  fuel.

  \<^bold>\<open>Not modelled.\<close> Log output, except the warning for unknown endpoints, which is part of the result of an
  event; help texts of the command line; the timing of tasks; the files that are empty (SSH,
  websockets, the handover module of the endpoint protocol), the methods \<^verbatim>\<open>insert_state\<close> and
  \<^verbatim>\<open>extract_states\<close> of a trait without implementations and callers, tests, and the programs of the benchmark
  harness. Where the source says \<^verbatim>\<open>unimplemented!()\<close>, the model panics.
\<close>

section \<open>From pods to endpoints\<close>

text \<open>C3: From annotation to selection. When a running pod with well-formed services is seen for
  the first time, its events are sent without error; once the service manager has processed them,
  every external port of the pod that was not served before is served by the pod alone, and a
  selection on it returns the pod's address with the backend port and protocol of the annotation,
  for every index.\<close>

theorem running_pod_becomes_selectable:
  assumes "\<forall>c e. send c e \<noteq> None" and "sm_inv sm"
    and "rt_sender rt = []" and "uid \<notin> set (known_pod_uids rt)"
    and "pod_details p = Some (uid, pname, annotations, address, ''Running'')"
    and "parse_ip address = Some addr"
    and "ss \<noteq> []" and "list_all valid_service ss" and "distinct (map fst ss)"
    and "map_of annotations SERVICES_ANNOTATION = Some (join_on CHR '','' (map show_service ss))"
  shows "\<exists>rt' sm'. handle_pod_event open_channel rt (Applied p) = (rt', Inr ()) \<and>
     run_all (try_event send) sm (map (Pair (rt_name rt)) (rt_sender rt')) = Some sm' \<and>
     (\<forall>s index. s \<in> set ss \<and> hm_get (port_service_map sm) (xport_of s) = None \<longrightarrow>
        get_endpoint_for sm' (xport_of s) index = Done (Some (backend_of addr s)))"
proof -
  let ?es = "map (add_of_service uid addr) ss @ [Resume uid]"
  obtain known' where pl: "plan (known_pod_uids rt) (Applied p) = Some (known', ?es)"
    using running_pod_plan [OF assms(5,6,4,7,8,10)] by blast
  then obtain rt' where rt': "handle_pod_event open_channel rt (Applied p) = (rt', Inr ())"
      "rt_sender rt' = ?es"
    by (simp add: handle_pod_event_ok assms(3) del: handle_pod_event.simps plan.simps)
  obtain sm' where sm': "run_all (try_event send) sm (map (Pair (rt_name rt)) ?es) = Some sm'"
    using run_all_not_refused [OF assms(1,2)] by blast
  from running_pod_directory(2) [OF assms(2,8,9) this] show ?thesis
    using rt' sm' by auto
qed

theorem running_pod_becomes_selectable_witness:
  "\<exists>rt' sm'. handle_pod_event open_channel (runtime_new ''k8s'' [])
       (Applied (example_pod ''u'' (Some ''10.0.0.1'') ''8080:http:80:http'' ''Running'')) = (rt', Inr ()) \<and>
     run_all (try_event open_channel) example_manager
       (map (Pair ''k8s'') (rt_sender rt')) = Some sm' \<and>
     get_endpoint_for sm' 8080 5 = Done (Some (SocketAddr (V4 10 0 0 1) 80, ''http''))"
proof -
  let ?ss = "[(8080, ''http'', 80, ''http'')] :: service_spec list"
  let ?rt = "runtime_new ''k8s'' [] :: endpoint_event list k8s_runtime"
  let ?p = "example_pod ''u'' (Some ''10.0.0.1'') ''8080:http:80:http'' ''Running''"
  have c: "\<forall>(c :: port_event list) e. open_channel c e \<noteq> None"
    by (simp add: open_channel_def)
  have rt: "rt_sender ?rt = []" "''u'' \<notin> set (known_pod_uids ?rt)"
    by (simp_all add: runtime_new_def)
  have d: "pod_details ?p = Some (''u'', ''web'', [(SERVICES_ANNOTATION, ''8080:http:80:http'')],
      ''10.0.0.1'', ''Running'')"
    by (simp add: pod_details_def example_pod_def)
  have a: "parse_ip ''10.0.0.1'' = Some (V4 10 0 0 1)"
    by (simp add: std_eval)
  have ss: "?ss \<noteq> []" "list_all valid_service ?ss" "distinct (map fst ?ss)"
    by (simp_all add: valid_service_def)
  have m: "map_of [(SERVICES_ANNOTATION, ''8080:http:80:http'')] SERVICES_ANNOTATION =
      Some (join_on CHR '','' (map show_service ?ss))"
    by (simp add: show_service_def show_nat.simps digit_char_def char_of_def
      bit_numeral_rec bit_0)
  have free: "hm_get (port_service_map example_manager) 8080 = None"
    by (simp add: example_manager_def sm_eval)
  obtain rt' sm' where r: "handle_pod_event open_channel ?rt (Applied ?p) = (rt', Inr ())"
      "run_all (try_event open_channel) example_manager (map (Pair (rt_name ?rt)) (rt_sender rt')) = Some sm'"
    and g: "\<forall>s index. s \<in> set ?ss \<and> hm_get (port_service_map example_manager) (xport_of s) = None \<longrightarrow>
        get_endpoint_for sm' (xport_of s) index = Done (Some (backend_of (V4 10 0 0 1) s))"
    using running_pod_becomes_selectable [OF c example_manager_inv rt d a ss m] by blast
  have "get_endpoint_for sm' 8080 5 = Done (Some (SocketAddr (V4 10 0 0 1) 80, ''http''))"
    using g [rule_format, of "(8080, ''http'', 80, ''http'')" 5] free
    by (simp add: xport_of_def backend_of_def)
  moreover have "rt_name ?rt = ''k8s''"
    by (simp add: runtime_new_def)
  ultimately show ?thesis using r by auto
qed



text \<open>C16: Deletion reaches the manager. Once the manager has processed, among events of other
  tasks in any interleaving, what the deletion of a pod sent, no port has an endpoint of this pod
  any more, and the pod is no longer known.\<close>

theorem deleted_pod_disappears:
  assumes "channel_contract ksend delivered" and "sm_inv sm"
    and "handle_pod_event ksend rt (Deleted p) = (rt', Inr ())"
    and "meta_uid (pod_metadata p) = Some uid"
    and "delivered (rt_sender rt') = delivered (rt_sender rt) @ events_of (rt_name rt) es"
    and "run_all (try_event send) sm es = Some sm'"
  shows "endpoint_at (directory_of (port_service_map sm')) port (endpoint_id_new (rt_name rt) uid) = None \<and>
    uid \<notin> set (known_pod_uids rt')"
proof -
  obtain c where c: "ksend (rt_sender rt) (Delete uid) = Some c"
      "rt' = rt\<lparr>rt_sender := c, known_pod_uids := hs_remove uid (known_pod_uids rt)\<rparr>"
    using assms(3,4) by (auto simp: handle_pod_event_ok simp del: handle_pod_event.simps split: option.splits)
  then have "events_of (rt_name rt) es = [Delete uid]"
    using assms(1,5) by (simp add: channel_contract_def)
  then show ?thesis
    using sm_sim.run_abs [OF assms(2,6)] c(2)
    by (simp add: endpoint_at_run_own endpoint_at_step rust_simps del: dir_step.simps)
qed

theorem deleted_pod_disappears_witness:
  "\<exists>rt' sm'. handle_pod_event open_channel \<lparr>rt_name = ''test'', rt_sender = [], known_pod_uids = [''1'']\<rparr>
       (Deleted (example_pod ''1'' None [] ''Running'')) = (rt', Inr ()) \<and>
     run_all (try_event open_channel) example_manager
       [(''k8s'', Delete ''0''), (''test'', Delete ''1'')] = Some sm' \<and>
     endpoint_at (directory_of (port_service_map sm')) 80 (endpoint_id_new ''test'' ''1'') = None"
proof -
  let ?rt = "\<lparr>rt_name = ''test'', rt_sender = [], known_pod_uids = [''1'']\<rparr>"
  let ?p = "example_pod ''1'' None [] ''Running''"
  let ?es = "[(''k8s'', Delete ''0''), (''test'', Delete ''1'')]"
  obtain rt' where r: "handle_pod_event open_channel ?rt (Deleted ?p) = (rt', Inr ())"
    and s: "rt_sender rt' = [Delete ''1'']"
    by (simp add: k8s_eval example_pod_def)
  have u: "meta_uid (pod_metadata ?p) = Some ''1''"
    by (simp add: example_pod_def)
  have ev: "rt_sender rt' = rt_sender ?rt @ events_of (rt_name ?rt) ?es"
    by (simp add: s events_of_def)
  have "\<exists>sm'. run_all (try_event open_channel) example_manager ?es = Some sm'"
    by (rule run_all_not_refused [OF _ example_manager_inv]) (simp add: open_channel_def)
  then obtain sm' where sm': "run_all (try_event open_channel) example_manager ?es = Some sm'" by blast
  show ?thesis
    using deleted_pod_disappears [OF open_channel_events_contract example_manager_inv r u ev sm'] r sm'
    by auto
qed

text \<open>C4: No endpoint outlives its pod. Start the proxy, let the Kubernetes task handle any watch
  stream, and let the manager process what it sent, in any interleaving with the events of other
  tasks: every endpoint that the manager holds for the task belongs to a pod that the task still
  knows and will therefore delete.\<close>

theorem no_endpoint_outlives_its_pod:
  assumes "channel_contract ksend delivered" and "delivered c = []"
    and "watch_pods ksend (runtime_new name c) (map Inr evs) = (rt, Inl StreamClosed :: 'e run_error + unit)"
    and "events_of name es = delivered (rt_sender rt)"
    and "run_all (try_event send) service_manager_new es = Some sm"
    and "endpoint_at (directory_of (port_service_map sm)) port (endpoint_id_new name uid) \<noteq> None"
  shows "uid \<in> set (known_pod_uids rt)"
proof -
  obtain known out c' where pl: "stream_plan [] evs = Some (known, out)"
      "run_all ksend c out = Some c'" "rt_sender rt = c'" "known_pod_uids rt = known"
    using assms(3) by (auto simp: watch_pods_closed runtime_new_def)
  have out: "events_of name es = out"
    using channel_run_all [OF assms(1) pl(2)] assms(2,4) pl(3) by simp
  have "owned name (dir_run es Map.empty) \<subseteq> set known"
    using owned_stream_plan [OF pl(1), of name Map.empty]
    by (simp add: owned_run out owned_fold) (simp add: owned_def endpoint_at_def)
  moreover have "directory_of (port_service_map sm) = dir_run es Map.empty"
    using sm_sim.run_abs [OF sm_inv_new assms(5)]
    by (simp add: service_manager_new_def directory_of_def [abs_def] rust_simps)
  ultimately show ?thesis
    using assms(6) pl(4) by (auto simp: owned_def)
qed

theorem no_endpoint_outlives_its_pod_witness:
  "\<exists>rt sm. watch_pods open_channel (runtime_new ''k8s'' [])
       (map Inr [Applied (example_pod ''u'' (Some ''10.0.0.1'') ''80:http:80:http'' ''Running''),
                 Applied (example_pod ''v'' (Some ''10.0.0.2'') ''80:http:80:http'' ''Running''),
                 Deleted (example_pod ''u'' None [] ''Running'')]) =
       (rt, Inl StreamClosed :: nat run_error + unit) \<and>
     run_all (try_event open_channel) (service_manager_new :: (nat, port_event list) service_manager)
       (map (Pair ''k8s'') (rt_sender rt)) = Some sm \<and>
     endpoint_at (directory_of (port_service_map sm)) 80 (endpoint_id_new ''k8s'' ''v'') \<noteq> None \<and>
     ''v'' \<in> set (known_pod_uids rt)"
proof -
  let ?out = "[Add ''u'' False 80 ''http'' (SocketAddr (V4 10 0 0 1) 80) ''http'', Resume ''u'',
      Add ''v'' False 80 ''http'' (SocketAddr (V4 10 0 0 2) 80) ''http'', Resume ''v'', Delete ''u'']"
  obtain rt where w: "watch_pods open_channel (runtime_new ''k8s'' [])
       (map Inr [Applied (example_pod ''u'' (Some ''10.0.0.1'') ''80:http:80:http'' ''Running''),
                 Applied (example_pod ''v'' (Some ''10.0.0.2'') ''80:http:80:http'' ''Running''),
                 Deleted (example_pod ''u'' None [] ''Running'')]) =
       (rt, Inl StreamClosed :: nat run_error + unit)"
    and out: "rt_sender rt = ?out"
    by (simp add: k8s_eval std_eval example_pod_def)
  have ev: "events_of ''k8s'' (map (Pair ''k8s'') ?out) = rt_sender rt"
    by (simp add: out events_of_def)
  obtain sm where sm: "run_all (try_event open_channel)
      (service_manager_new :: (nat, port_event list) service_manager) (map (Pair ''k8s'') ?out) = Some sm"
    and at: "endpoint_at (directory_of (port_service_map sm)) 80 (endpoint_id_new ''k8s'' ''v'') \<noteq> None"
    by (simp add: sm_eval endpoint_at_def directory_of_def)
  show ?thesis
    using no_endpoint_outlives_its_pod [OF open_channel_events_contract refl w ev sm at] w sm at out
    by auto
qed

end
